theory Spec2Isabelle
  imports Main "HOL-Library.Sublist"
begin

section \<open>Values of the host: objects, function records, log output\<close>

text \<open>
  The plugin works on objects of the hosting framework. A package object
  (\<^verbatim>\<open>func.package\<close>, \<^verbatim>\<open>service.package\<close>) is an ordered list of own
  properties; the values that occur in it are strings and booleans.
\<close>

datatype jsval = JStr string | JBool bool

type_synonym jsobject = "(string \<times> jsval) list"

text \<open>\<^verbatim>\<open>obj[key] = v\<close>: an existing own property keeps its place, a new one is appended.\<close>

fun js_set :: "string \<Rightarrow> jsval \<Rightarrow> jsobject \<Rightarrow> jsobject" where
  "js_set k v [] = [(k, v)]"
| "js_set k v (p # ps) = (if fst p = k then (k, v) # ps else p # js_set k v ps)"

text \<open>
  \<^verbatim>\<open>_.assign({}, a, b)\<close>: a fresh object with the own properties of \<open>a\<close>, on which
  those of \<open>b\<close> are then set in order.
\<close>

definition js_assign :: "jsobject \<Rightarrow> jsobject \<Rightarrow> jsobject" where
  "js_assign a b = foldl (\<lambda>acc (k, v). js_set k v acc) a b"

text \<open>JavaScript truthiness of a property that may be missing.\<close>

fun truthy :: "jsval option \<Rightarrow> bool" where
  "truthy None = False"
| "truthy (Some (JBool b)) = b"
| "truthy (Some (JStr s)) = (s \<noteq> [])"

text \<open>
  A function record of the service. The plugin reads and writes two of its fields:
  \<^verbatim>\<open>func.artifact\<close> and \<^verbatim>\<open>func.package\<close> (\<open>None\<close> is \<^verbatim>\<open>undefined\<close>).
  The handler stands for the fields it never touches.
\<close>

record func =
  handler :: string
  artifact :: "string option"
  package :: "jsobject option"

text \<open>
  What the plugin prints, in order: the modern logger (\<^verbatim>\<open>this.log\<close>), the progress
  reporter (\<^verbatim>\<open>this.progress\<close>), the legacy \<^verbatim>\<open>this.serverless.cli.log\<close>, and
  \<^verbatim>\<open>console.log\<close>.
\<close>

datatype event =
    LogVerbose string
  | LogError string
  | ProgressNotice string
  | CliLog string
  | ConsoleLog string

section \<open>Versions: \<^verbatim>\<open>semver.lt\<close>\<close>

text \<open>
  A parsed semantic version. \<^verbatim>\<open>semver.lt(a, b)\<close> compares major, minor and patch
  as numbers, then the prerelease identifiers: a version with a prerelease is lower
  than the same version without one; identifiers compare one by one, a numeric one
  below an alphanumeric one. The host's version string is taken as parsed.
\<close>

datatype prerelease_id = NumId nat | AlnumId string

record semver =
  major :: nat
  minor :: nat
  patch :: nat
  prerelease :: "prerelease_id list"

fun string_lt :: "string \<Rightarrow> string \<Rightarrow> bool" where
  "string_lt [] [] = False"
| "string_lt [] (y # ys) = True"
| "string_lt (x # xs) [] = False"
| "string_lt (x # xs) (y # ys) =
     (if x = y then string_lt xs ys else (of_char x :: nat) < of_char y)"

fun compareIdentifiers :: "prerelease_id \<Rightarrow> prerelease_id \<Rightarrow> int" where
  "compareIdentifiers (NumId a) (NumId b) = (if a = b then 0 else if a < b then -1 else 1)"
| "compareIdentifiers (NumId a) (AlnumId b) = -1"
| "compareIdentifiers (AlnumId a) (NumId b) = 1"
| "compareIdentifiers (AlnumId a) (AlnumId b) = (if a = b then 0 else if string_lt a b then -1 else 1)"

fun comparePreLoop :: "prerelease_id list \<Rightarrow> prerelease_id list \<Rightarrow> int" where
  "comparePreLoop [] [] = 0"
| "comparePreLoop (a # as) [] = 1"
| "comparePreLoop [] (b # bs) = -1"
| "comparePreLoop (a # as) (b # bs) =
     (if a = b then comparePreLoop as bs else compareIdentifiers a b)"

definition comparePre :: "semver \<Rightarrow> semver \<Rightarrow> int" where
  "comparePre a b =
     (if prerelease a \<noteq> [] \<and> prerelease b = [] then -1
      else if prerelease a = [] \<and> prerelease b \<noteq> [] then 1
      else if prerelease a = [] \<and> prerelease b = [] then 0
      else comparePreLoop (prerelease a) (prerelease b))"

definition compareNat :: "nat \<Rightarrow> nat \<Rightarrow> int" where
  "compareNat a b = (if a = b then 0 else if a < b then -1 else 1)"

definition compareMain :: "semver \<Rightarrow> semver \<Rightarrow> int" where
  "compareMain a b =
     (if compareNat (major a) (major b) \<noteq> 0 then compareNat (major a) (major b)
      else if compareNat (minor a) (minor b) \<noteq> 0 then compareNat (minor a) (minor b)
      else compareNat (patch a) (patch b))"

definition semver_compare :: "semver \<Rightarrow> semver \<Rightarrow> int" where
  "semver_compare a b = (if compareMain a b \<noteq> 0 then compareMain a b else comparePre a b)"

definition semver_lt :: "semver \<Rightarrow> semver \<Rightarrow> bool" where
  "semver_lt a b = (semver_compare a b < 0)"

text \<open>The threshold of \<^verbatim>\<open>setArtifactPath\<close>: \<^verbatim>\<open>'1.18.0'\<close>.\<close>

definition v1_18_0 :: semver where
  "v1_18_0 = \<lparr>major = 1, minor = 18, patch = 0, prerelease = []\<rparr>"

section \<open>The plugin instance\<close>

text \<open>
  The part of \<^verbatim>\<open>this\<close> the packaging code reads and never writes.
  \<^item> \<open>log\<close>: whether the modern logger \<^verbatim>\<open>this.log\<close> exists;
  \<^item> \<open>verbose\<close>: \<^verbatim>\<open>this.options.verbose\<close>;
  \<^item> \<open>function_option\<close>: \<^verbatim>\<open>this.options.function\<close>, the \<^verbatim>\<open>-f\<close> flag;
  \<^item> \<open>excludeRegex\<close>: \<^verbatim>\<open>this.configuration.excludeRegex\<close>, as the test
    \<^verbatim>\<open>file.match(excludeRegex)\<close> it decides;
  \<^item> \<open>version\<close>: \<^verbatim>\<open>this.serverless.getVersion()\<close>;
  \<^item> \<open>serviceName\<close>: \<^verbatim>\<open>this.serverless.service.getServiceObject().name\<close>;
  \<^item> \<open>allNodeFunctions\<close> and \<open>providerIsGoogle\<close>: the results of
    \<^verbatim>\<open>getAllNodeFunctions\<close> and \<^verbatim>\<open>isProviderGoogle\<close> of \<^verbatim>\<open>./utils\<close>, taken as given.
\<close>

record plugin =
  log :: bool
  verbose :: bool
  function_option :: "string option"
  excludeRegex :: "(string \<Rightarrow> bool) option"
  webpackOutputPath :: string
  version :: semver
  serviceName :: string
  allNodeFunctions :: "string list"
  providerIsGoogle :: bool

text \<open>
  The idiom \<^verbatim>\<open>if (this.log) this.log.verbose(m) else this.options.verbose && this.serverless.cli.log(m)\<close>.
\<close>

definition log_verbose :: "plugin \<Rightarrow> string \<Rightarrow> event list \<Rightarrow> event list" where
  "log_verbose this m out =
     (if log this then out @ [LogVerbose m]
      else if verbose this then out @ [CliLog m] else out)"

section \<open>\<^verbatim>\<open>setArtifactPath\<close>\<close>

definition setting_artifact_message :: "string \<Rightarrow> string \<Rightarrow> string" where
  "setting_artifact_message funcName artifactPath =
     ''Setting artifact for function '' @ [CHR 0x27] @ funcName @ [CHR 0x27] @
     '' to '' @ [CHR 0x27] @ artifactPath @ [CHR 0x27]"

definition packaged_notice :: "string \<Rightarrow> string" where
  "packaged_notice funcName =
     funcName @ '' is packaged by the webpack plugin. Ignore messages from SLS.''"

text \<open>
  The function mutates the record it is given and prints; the model returns the new
  record and the extended output.
\<close>

definition setArtifactPath ::
  "plugin \<Rightarrow> string \<Rightarrow> func \<Rightarrow> string \<Rightarrow> event list \<Rightarrow> func \<times> event list" where
  "setArtifactPath this funcName fn artifactPath out =
     (let out1 = log_verbose this (setting_artifact_message funcName artifactPath) out in
      if semver_lt (version this) v1_18_0 then
        (fn\<lparr>artifact := Some artifactPath,
            package := Some (js_assign (case package fn of None \<Rightarrow> [] | Some p \<Rightarrow> p)
                                       [(''disable'', JBool True)])\<rparr>,
         if \<not> log this then out1 @ [CliLog (packaged_notice funcName)] else out1)
      else
        (fn\<lparr>package := Some [(''artifact'', JStr artifactPath)]\<rparr>, out1))"

section \<open>Paths: \<^verbatim>\<open>path.join\<close>\<close>

text \<open>
  \<^verbatim>\<open>path.join\<close> of Node.js in its POSIX form, for two arguments: the non-empty
  arguments are joined with a slash and the result is normalized. Normalizing drops
  empty and \<^verbatim>\<open>.\<close> segments and resolves \<^verbatim>\<open>..\<close> against the segment before it.
\<close>

fun split_on :: "char \<Rightarrow> string \<Rightarrow> string list" where
  "split_on c [] = [[]]"
| "split_on c (x # xs) =
     (if x = c then [] # split_on c xs
      else (case split_on c xs of [] \<Rightarrow> [[x]] | s # ss \<Rightarrow> (x # s) # ss))"

fun join_segments :: "string list \<Rightarrow> string" where
  "join_segments [] = []"
| "join_segments [s] = s"
| "join_segments (s # t # ss) = s @ CHR ''/'' # join_segments (t # ss)"

definition normalize_step :: "bool \<Rightarrow> string list \<Rightarrow> string \<Rightarrow> string list" where
  "normalize_step allowAboveRoot res seg =
     (if seg = [] \<or> seg = ''.'' then res
      else if seg = ''..'' then
        (if res \<noteq> [] \<and> last res \<noteq> ''..'' then butlast res
         else if allowAboveRoot then res @ [''..''] else res)
      else res @ [seg])"

definition normalizeString :: "string \<Rightarrow> bool \<Rightarrow> string" where
  "normalizeString path allowAboveRoot =
     join_segments (foldl (normalize_step allowAboveRoot) [] (split_on CHR ''/'' path))"

definition path_normalize :: "string \<Rightarrow> string" where
  "path_normalize path =
     (if path = [] then ''.''
      else
        (let isAbsolute = (hd path = CHR ''/'');
             trailingSeparator = (last path = CHR ''/'');
             p = normalizeString path (\<not> isAbsolute)
         in if p = [] then (if isAbsolute then ''/'' else if trailingSeparator then ''./'' else ''.'')
            else (let q = (if trailingSeparator then p @ ''/'' else p)
                  in if isAbsolute then CHR ''/'' # q else q)))"

definition path_join :: "string \<Rightarrow> string \<Rightarrow> string" where
  "path_join a b =
     (if a = [] \<and> b = [] then ''.''
      else path_normalize (if a = [] then b else if b = [] then a else a @ CHR ''/'' # b))"

section \<open>The world the plugin changes\<close>

text \<open>
  What is at a path of the disk: a regular file that holds plain data or a zip
  archive (its entries, and whether the archive was finalized: a stream that stopped
  early leaves the entries written so far), or a directory. An entry of an archive
  is a file with its content or, under a name that ends in a slash, a directory.
\<close>

datatype content = Data string | Zip "(string \<times> content) list" bool | Directory

text \<open>
  The mutable state: what is on disk by path, regular files and directories, in the
  order in which a walk of the disk meets them; the paths whose reading or writing
  fails; the function records of the service (\<^verbatim>\<open>service.functions\<close>), the object
  \<^verbatim>\<open>service.package\<close>, and everything printed so far.
\<close>

record state =
  files :: "(string \<times> content) list"
  unreadable :: "string list"
  unwritable :: "string list"
  service_functions :: "string \<rightharpoonup> func"
  service_package :: jsobject
  printed :: "event list"

text \<open>
  Why a call gives no value. The first constructors are exceptions that reach the
  caller: thrown by a synchronous call, or the rejection of the promise of an
  asynchronous one. The last two are the failures that do not reach it: an exception
  thrown inside an event callback, which nothing catches and which ends the process,
  and a promise that never settles.
\<close>

datatype error =
    ServerlessError string
  | ENOENT string
  | EACCES string
  | EISDIR string
  | EEXIST string
  | ENOTDIR string
  | UnknownFunction string
  | Uncaught error
  | NeverSettles

type_synonym 'a action = "state \<Rightarrow> (error + 'a) \<times> state"

definition is_directory :: "state \<Rightarrow> string \<Rightarrow> bool" where
  "is_directory st p = (map_of (files st) p = Some Directory)"

text \<open>Writing a file replaces the one at that path, if any; a new file comes last.\<close>

definition write_file :: "string \<Rightarrow> content \<Rightarrow> (string \<times> content) list \<Rightarrow> (string \<times> content) list" where
  "write_file p c fs = (if p \<in> fst ` set fs then map (\<lambda>(q, d). if q = p then (q, c) else (q, d)) fs
                        else fs @ [(p, c)])"

definition remove_file :: "string \<Rightarrow> (string \<times> content) list \<Rightarrow> (string \<times> content) list" where
  "remove_file p fs = filter (\<lambda>(q, d). q \<noteq> p) fs"

definition existsSync :: "state \<Rightarrow> string \<Rightarrow> bool" where
  "existsSync st p = (map_of (files st) p \<noteq> None)"

text \<open>\<^verbatim>\<open>fs.unlinkSync\<close> removes a file; it refuses a directory.\<close>

definition unlinkSync :: "string \<Rightarrow> unit action" where
  "unlinkSync p st =
     (if map_of (files st) p = None then (Inl (ENOENT p), st)
      else if is_directory st p then (Inl (EISDIR p), st)
      else (Inr (), st\<lparr>files := remove_file p (files st)\<rparr>))"

text \<open>
  \<^verbatim>\<open>path.dirname\<close> of Node.js in its POSIX form: the path without its last segment
  and the slashes after it, found by scanning from the end down to the second
  character; \<^verbatim>\<open>.\<close> or \<^verbatim>\<open>/\<close> when there is no slash before the last segment.
\<close>

definition path_dirname :: "string \<Rightarrow> string" where
  "path_dirname path =
     (if path = [] then ''.''
      else
        (let hasRoot = (hd path = CHR ''/'');
             beforeName = dropWhile (\<lambda>c. c \<noteq> CHR ''/'')
                            (dropWhile (\<lambda>c. c = CHR ''/'') (rev (tl path)))
         in if beforeName = [] then (if hasRoot then ''/'' else ''.'')
            else if hasRoot \<and> tl beforeName = [] then ''//''
            else hd path # rev (tl beforeName)))"

text \<open>
  The directories that \<^verbatim>\<open>mkdir -p\<close> of a directory path goes through, outermost
  first: the path cut after each of its segments. The root, \<^verbatim>\<open>.\<close> and \<^verbatim>\<open>..\<close>
  always exist.
\<close>

definition parent_directories :: "string \<Rightarrow> string list" where
  "parent_directories dir =
     (let segments = split_on CHR ''/'' dir
      in map (\<lambda>k. join_segments (take k segments))
             (filter (\<lambda>k. segments ! (k - 1) \<noteq> [] \<and> segments ! (k - 1) \<noteq> ''.''
                          \<and> segments ! (k - 1) \<noteq> ''..'')
                     [1..<Suc (length segments)]))"

text \<open>
  A directory path exists when it is a directory of the disk, or when it names the
  root or has no segment other than \<^verbatim>\<open>.\<close> and \<^verbatim>\<open>..\<close>.
\<close>

definition directory_exists :: "state \<Rightarrow> string \<Rightarrow> bool" where
  "directory_exists st dir = (parent_directories dir = [] \<or> is_directory st dir)"

text \<open>
  \<^verbatim>\<open>fs.copyFileSync\<close> copies the content of one regular file to another path, in a
  directory that exists.
\<close>

definition copyFileSync :: "string \<Rightarrow> string \<Rightarrow> unit action" where
  "copyFileSync src dest st =
     (case map_of (files st) src of
        None \<Rightarrow> (Inl (ENOENT src), st)
      | Some c \<Rightarrow>
          if c = Directory then (Inl (EISDIR src), st)
          else if src \<in> set (unreadable st) then (Inl (EACCES src), st)
          else if is_directory st dest then (Inl (EISDIR dest), st)
          else if \<not> directory_exists st (path_dirname dest) then (Inl (ENOENT dest), st)
          else if dest \<in> set (unwritable st) then (Inl (EACCES dest), st)
          else (Inr (), st\<lparr>files := write_file dest c (files st)\<rparr>))"

text \<open>
  \<^verbatim>\<open>mkdirsSync\<close>: each directory on the way is created unless it is there; a regular
  file in its place is an error.
\<close>

fun make_directories :: "string list \<Rightarrow> unit action" where
  "make_directories [] st = (Inr (), st)"
| "make_directories (q # qs) st =
     (case map_of (files st) q of
        None \<Rightarrow> make_directories qs (st\<lparr>files := files st @ [(q, Directory)]\<rparr>)
      | Some c \<Rightarrow>
          if c = Directory then make_directories qs st
          else (Inl (if qs = [] then EEXIST q else ENOTDIR q), st))"

text \<open>
  \<^verbatim>\<open>this.serverless.utils.writeFileDir\<close> creates the parent directories of a path:
  \<^verbatim>\<open>mkdirsSync(path.dirname(filePath))\<close>.
\<close>

definition writeFileDir :: "string \<Rightarrow> unit action" where
  "writeFileDir p st = make_directories (parent_directories (path_dirname p)) st"

text \<open>\<^verbatim>\<open>_.forEach\<close> with a callback that may throw: the first exception ends the loop.\<close>

fun forEach :: "('a \<Rightarrow> unit action) \<Rightarrow> 'a list \<Rightarrow> unit action" where
  "forEach f [] st = (Inr (), st)"
| "forEach f (x # xs) st =
     (case f x st of
        (Inl e, st') \<Rightarrow> (Inl e, st')
      | (Inr u, st') \<Rightarrow> forEach f xs st')"

section \<open>Artifact locations and the distributor\<close>

text \<open>The pair is \<^verbatim>\<open>{ webpackArtifact, serverlessArtifact }\<close>.\<close>

definition getArtifactLocations :: "plugin \<Rightarrow> string \<Rightarrow> string \<times> string" where
  "getArtifactLocations this name =
     (let archiveName = name @ ''.zip''
      in (path_join (webpackOutputPath this) archiveName, path_join ''.serverless'' archiveName))"

definition copyArtifactByName :: "plugin \<Rightarrow> string \<Rightarrow> unit action" where
  "copyArtifactByName this artifactName st =
     (let (webpackArtifact, serverlessArtifact) = getArtifactLocations this artifactName
      in case writeFileDir serverlessArtifact st of
           (Inl e, st1) \<Rightarrow> (Inl e, st1)
         | (Inr u, st1) \<Rightarrow> copyFileSync webpackArtifact serverlessArtifact st1)"

text \<open>\<^verbatim>\<open>_.set(this.serverless, 'service.package.artifact', artifactPath)\<close>.\<close>

definition setServiceArtifactPath :: "string \<Rightarrow> state \<Rightarrow> state" where
  "setServiceArtifactPath artifactPath st =
     st\<lparr>service_package := js_set ''artifact'' (JStr artifactPath) (service_package st)\<rparr>"

text \<open>\<^verbatim>\<open>_.get(this.serverless, 'service.package.individually')\<close>, as the conditions read it.\<close>

definition isIndividualPackaging :: "state \<Rightarrow> bool" where
  "isIndividualPackaging st = truthy (map_of (service_package st) ''individually'')"

text \<open>
  \<^verbatim>\<open>this.options.function ? [this.options.function] : getAllNodeFunctions.call(this)\<close>:
  an empty string is falsy.
\<close>

definition functionNames :: "plugin \<Rightarrow> string list" where
  "functionNames this =
     (case function_option this of
        Some f \<Rightarrow> if f \<noteq> [] then [f] else allNodeFunctions this
      | None \<Rightarrow> allNodeFunctions this)"

text \<open>The first loop of \<^verbatim>\<open>copyExistingArtifacts\<close>: copy artifacts to the package location.\<close>

definition copy_pass :: "plugin \<Rightarrow> bool \<Rightarrow> unit action" where
  "copy_pass this individualPackagingEnabled st =
     (if individualPackagingEnabled then forEach (copyArtifactByName this) (functionNames this) st
      else copyArtifactByName this (serviceName this) st)"

text \<open>
  The body of the second loop. \<^verbatim>\<open>this.serverless.service.getFunction\<close> throws for a
  name the service does not know; the record it returns is changed in place.
\<close>

definition assign_artifact :: "plugin \<Rightarrow> bool \<Rightarrow> string \<Rightarrow> unit action" where
  "assign_artifact this individualPackagingEnabled funcName st =
     (case service_functions st funcName of
        None \<Rightarrow> (Inl (UnknownFunction funcName), st)
      | Some fn \<Rightarrow>
          (let archiveName = (if individualPackagingEnabled then funcName else serviceName this);
               (webpackArtifact, serverlessArtifact) = getArtifactLocations this archiveName;
               (fn', out') = setArtifactPath this funcName fn serverlessArtifact (printed st)
           in (Inr (), st\<lparr>service_functions := (service_functions st)(funcName \<mapsto> fn'), printed := out'\<rparr>)))"

definition assignment_pass :: "plugin \<Rightarrow> bool \<Rightarrow> unit action" where
  "assignment_pass this individualPackagingEnabled st =
     forEach (assign_artifact this individualPackagingEnabled) (functionNames this) st"

text \<open>The opening lines of \<^verbatim>\<open>copyExistingArtifacts\<close>: it says what it is about to do.\<close>

definition announce :: "plugin \<Rightarrow> state \<Rightarrow> state" where
  "announce this st =
     st\<lparr>printed := printed st @
          (if log this
           then [LogVerbose ''[Webpack] Copying existing artifacts'',
                 ProgressNotice ''[Webpack] Copying existing artifacts'']
           else [CliLog ''Copying existing artifacts...''])\<rparr>"

definition copyExistingArtifacts :: "plugin \<Rightarrow> unit action" where
  "copyExistingArtifacts this st =
     (let st0 = announce this st;
          individualPackagingEnabled = isIndividualPackaging st0
      in case copy_pass this individualPackagingEnabled st0 of
           (Inl e, st1) \<Rightarrow> (Inl e, st1)
         | (Inr u, st1) \<Rightarrow>
             (case assignment_pass this individualPackagingEnabled st1 of
                (Inl e, st2) \<Rightarrow> (Inl e, st2)
              | (Inr v, st2) \<Rightarrow>
                  if \<not> individualPackagingEnabled \<and> providerIsGoogle this
                  then (Inr (), setServiceArtifactPath (snd (getArtifactLocations this (serviceName this))) st2)
                  else (Inr (), st2)))"

text \<open>
  The artifact a host of the plugin's version deploys for a function record: the
  flat field before 1.18.0, the nested descriptor from then on.
\<close>

definition artifact_binding :: "plugin \<Rightarrow> func \<Rightarrow> string option" where
  "artifact_binding this fn =
     (if semver_lt (version this) v1_18_0 then artifact fn
      else (case package fn of
              None \<Rightarrow> None
            | Some p \<Rightarrow> (case map_of p ''artifact'' of Some (JStr a) \<Rightarrow> Some a | _ \<Rightarrow> None)))"

text \<open>The binding of a function of the service, by name; \<open>None\<close> when there is none.\<close>

definition function_binding :: "plugin \<Rightarrow> state \<Rightarrow> string \<Rightarrow> string option" where
  "function_binding this st f =
     (case service_functions st f of None \<Rightarrow> None | Some fn \<Rightarrow> artifact_binding this fn)"

section \<open>Enumeration, exclusion and the archive\<close>

text \<open>
  A relative path as the enumerator returns it: segments separated by slashes, none
  of them empty, \<^verbatim>\<open>.\<close> or \<^verbatim>\<open>..\<close>.
\<close>

definition relative_path :: "string \<Rightarrow> bool" where
  "relative_path r = list_all (\<lambda>s. s \<noteq> [] \<and> s \<noteq> ''.'' \<and> s \<noteq> ''..'') (split_on CHR ''/'' r)"

text \<open>
  The relative paths under which a path of the disk is met from a directory: the
  \<open>r\<close> for which \<^verbatim>\<open>path.join(directory, r)\<close> is that path. Such an \<open>r\<close> is an
  end piece of the path, which makes the list computable (it has at most one element,
  as it turns out). A walk of the directory meets everything under it, files and
  directories, but not the directory itself.
\<close>

definition under :: "string \<Rightarrow> string \<Rightarrow> string list" where
  "under directory p = filter (\<lambda>r. relative_path r \<and> path_join directory r = p) (suffixes p)"

definition walk :: "state \<Rightarrow> string \<Rightarrow> string list" where
  "walk st directory = concat (map (\<lambda>(p, c). under directory p) (files st))"

text \<open>
  \<^verbatim>\<open>glob.sync('**', {cwd: directory, dot: true, silent: true, follow: true, nodir: true})\<close>:
  the relative paths of the regular files under the directory; \<^verbatim>\<open>nodir\<close> leaves
  the directories out.
\<close>

definition glob_sync :: "state \<Rightarrow> string \<Rightarrow> string list" where
  "glob_sync st directory =
     filter (\<lambda>r. \<not> is_directory st (path_join directory r)) (walk st directory)"

fun show_nat :: "nat \<Rightarrow> string" where
  "show_nat n = (if n < 10 then [char_of (48 + n)] else show_nat (n div 10) @ [char_of (48 + n mod 10)])"

declare show_nat.simps [simp del]

text \<open>
  The loop of \<^verbatim>\<open>zip\<close> over \<^verbatim>\<open>files\<close> by index. A matching entry is spliced out of
  the array, its file is deleted if it exists, and the index stays where it is
  (\<^verbatim>\<open>index--\<close> undoes the loop's \<^verbatim>\<open>index++\<close>); any other entry moves the index on.
  The result is the array, the count \<^verbatim>\<open>filesExcluded\<close> and the new state.
\<close>

function exclude_loop ::
  "(string \<Rightarrow> bool) \<Rightarrow> string \<Rightarrow> string list \<Rightarrow> nat \<Rightarrow> nat \<Rightarrow> (string list \<times> nat) action" where
  "exclude_loop matches directory fileList index filesExcluded st =
     (if index < length fileList then
        (let file = fileList ! index in
         if matches file then
           (let spliced = take index fileList @ drop (Suc index) fileList;
                pathFile = path_join directory file
            in case (if existsSync st pathFile then unlinkSync pathFile st else (Inr (), st)) of
                 (Inl e, st') \<Rightarrow> (Inl e, st')
               | (Inr u, st') \<Rightarrow> exclude_loop matches directory spliced index (Suc filesExcluded) st')
         else exclude_loop matches directory fileList (Suc index) filesExcluded st)
      else (Inr (fileList, filesExcluded), st))"
  by pat_completeness auto
termination
  by (relation "measure (\<lambda>(matches, directory, fileList, index, filesExcluded, st). length fileList - index)")
     auto

declare exclude_loop.simps [simp del]

text \<open>
  The archive stream of \<^verbatim>\<open>archive.directory(directory, false)\<close>. The archiver walks
  the directory itself and appends an entry for everything it meets: a file is read
  and stored under its relative name, a directory is stored under its relative name
  with a slash added. A file that cannot be read ends the stream with an error; the
  entries before it have been written.
\<close>

fun archive_entries :: "state \<Rightarrow> string \<Rightarrow> string list \<Rightarrow> (error + unit) \<times> (string \<times> content) list" where
  "archive_entries st directory [] = (Inr (), [])"
| "archive_entries st directory (r # rs) =
     (let p = path_join directory r in
      case map_of (files st) p of
        None \<Rightarrow> (Inl (ENOENT p), [])
      | Some c \<Rightarrow>
          if c = Directory then
            (case archive_entries st directory rs of (res, es) \<Rightarrow> (res, (r @ ''/'', Directory) # es))
          else if p \<in> set (unreadable st) then (Inl (EACCES p), [])
          else (case archive_entries st directory rs of (res, es) \<Rightarrow> (res, (r, c) # es)))"

text \<open>
  The \<^verbatim>\<open>progress\<close> handler: after each entry, file or directory, once the number
  processed has reached \<^verbatim>\<open>total\<close>, it prints the two counts.
\<close>

definition progress_messages :: "nat \<Rightarrow> nat \<Rightarrow> event list" where
  "progress_messages totalFiles n =
     map (\<lambda>processed. ConsoleLog (CHR 0x0A # show_nat processed @ ''/'' @ show_nat totalFiles @ '' files processed''))
         (filter (\<lambda>processed. processed \<ge> totalFiles) [1..<Suc n])"

text \<open>
  Whether a file can be opened for writing: the path is not a directory, its
  directory exists, and writing there does not fail.
\<close>

definition can_open :: "state \<Rightarrow> string \<Rightarrow> bool" where
  "can_open st p =
     (\<not> is_directory st p \<and> directory_exists st (path_dirname p) \<and> p \<notin> set (unwritable st))"

text \<open>
  \<^verbatim>\<open>fs.createWriteStream(artifactFilePath)\<close> never throws. Opening the stream creates
  the output file, empty, or truncates the one that is there. When the file cannot be
  opened, the stream only emits an \<^verbatim>\<open>error\<close> event and closes. The result says whether
  the file was opened.
\<close>

definition createWriteStream :: "string \<Rightarrow> state \<Rightarrow> bool \<times> state" where
  "createWriteStream p st =
     (if can_open st p then (True, st\<lparr>files := write_file p (Zip [] False) (files st)\<rparr>)
      else (False, st))"

text \<open>
  \<^verbatim>\<open>serverlessZip\<close>. The output stream is opened, then the archive of the directory
  is streamed into it.
  \<^item> An error of the archive is thrown again by the \<^verbatim>\<open>error\<close> handler. That handler
    runs as an event callback, outside the promise of the function: the exception is
    not a rejection, nothing catches it. Nothing removes the output file, so what was
    written stays, not finalized.
  \<^item> The output stream has no \<^verbatim>\<open>error\<close> handler, and the promise that waits for its
    \<^verbatim>\<open>close\<close> event has no way to reject. When the output cannot be opened, the
    archive is still produced, into nothing, and the function waits for ever for a
    \<^verbatim>\<open>close\<close> event that has passed.
  \<^item> Otherwise the archive is finalized, the stream closed, and the path returned.
\<close>

definition serverlessZip :: "plugin \<Rightarrow> string \<Rightarrow> string \<Rightarrow> string list \<Rightarrow> string action" where
  "serverlessZip this artifactFilePath directory fileList st =
     (case createWriteStream artifactFilePath st of
        (opened, st1) \<Rightarrow>
          (let totalFiles = length fileList;
               store = (\<lambda>c. if opened then write_file artifactFilePath c (files st1) else files st1)
           in case archive_entries st1 directory (walk st1 directory) of
                (Inl e, entries) \<Rightarrow>
                  (Inl (Uncaught e),
                   st1\<lparr>files := store (Zip entries False),
                       printed := printed st1 @ progress_messages totalFiles (length entries)\<rparr>)
              | (Inr v, entries) \<Rightarrow>
                  (if opened then Inr artifactFilePath else Inl NeverSettles,
                   st1\<lparr>files := store (Zip entries True),
                       printed := printed st1 @ progress_messages totalFiles (length entries)\<rparr>)))"

text \<open>The block of \<^verbatim>\<open>zip\<close> under \<^verbatim>\<open>if (excludeRegex)\<close>: the loop, then the count is logged.\<close>

definition exclude_files :: "plugin \<Rightarrow> string \<Rightarrow> string list \<Rightarrow> string list action" where
  "exclude_files this directory fileList st =
     (case excludeRegex this of
        None \<Rightarrow> (Inr fileList, st)
      | Some matches \<Rightarrow>
          (case exclude_loop matches directory fileList 0 0 st of
             (Inl e, st') \<Rightarrow> (Inl e, st')
           | (Inr (kept, filesExcluded), st') \<Rightarrow>
               (Inr kept,
                st'\<lparr>printed := log_verbose this
                   (''Excluded '' @ show_nat filesExcluded @ '' file(s) based on excludeRegex'')
                   (printed st')\<rparr>)))"

text \<open>The first half of \<^verbatim>\<open>zip\<close>: enumerate the directory, then exclude.\<close>

definition list_files :: "plugin \<Rightarrow> string \<Rightarrow> string list action" where
  "list_files this directory st = exclude_files this directory (glob_sync st directory) st"

text \<open>
  \<^verbatim>\<open>zip\<close>: list the files, refuse an empty list, then build the archive at
  \<^verbatim>\<open>path.join(this.webpackOutputPath, zipFileName)\<close>.
\<close>

definition zip_directory :: "plugin \<Rightarrow> string \<Rightarrow> string \<Rightarrow> string action" where
  "zip_directory this directory zipFileName st =
     (case list_files this directory st of
        (Inl e, st1) \<Rightarrow> (Inl e, st1)
      | (Inr fileList, st1) \<Rightarrow>
          if fileList = [] then (Inl (ServerlessError ''Packaging: No files found''), st1)
          else
            (let artifactFilePath = path_join (webpackOutputPath this) zipFileName
             in case writeFileDir artifactFilePath st1 of
                  (Inl e, st2) \<Rightarrow> (Inl e, st2)
                | (Inr u, st2) \<Rightarrow> serverlessZip this artifactFilePath directory fileList st2))"

section \<open>Notions used in the statements and proofs\<close>

text \<open>
  What the first argument of \<^verbatim>\<open>path.join\<close> contributes to the result when the second
  is a relative path without \<^verbatim>\<open>.\<close> and \<^verbatim>\<open>..\<close>: the normalized directory and a slash.
\<close>

definition dir_base :: "string \<Rightarrow> string" where
  "dir_base d =
     (if d = [] then []
      else (let stack = foldl (normalize_step (hd d \<noteq> CHR ''/'')) [] (split_on CHR ''/'' d)
            in (if hd d = CHR ''/'' then ''/'' else []) @
               (if stack = [] then [] else join_segments stack @ ''/'')))"

text \<open>
  The archive entry that a relative path of the directory stands for, as the disk of
  a state has it: the file with its content, or the directory under its name with a
  slash; none where nothing is at the path.
\<close>

definition entry_at :: "state \<Rightarrow> string \<Rightarrow> string \<Rightarrow> (string \<times> content) option" where
  "entry_at st directory r =
     map_option (\<lambda>c. if c = Directory then (r @ ''/'', Directory) else (r, c))
                (map_of (files st) (path_join directory r))"

text \<open>The names of the entries of an archive.\<close>

definition entry_names :: "content \<Rightarrow> string list" where
  "entry_names c = (case c of Zip es finalized \<Rightarrow> map fst es | _ \<Rightarrow> [])"

text \<open>Whether the configured pattern, if there is one, matches a relative path.\<close>

definition excluded :: "plugin \<Rightarrow> string \<Rightarrow> bool" where
  "excluded this r = (case excludeRegex this of None \<Rightarrow> False | Some matches \<Rightarrow> matches r)"

text \<open>The disk once the files that match the pattern are deleted.\<close>

definition excluded_deleted :: "(string \<Rightarrow> bool) \<Rightarrow> string \<Rightarrow> state \<Rightarrow> (string \<times> content) list" where
  "excluded_deleted m d st =
     filter (\<lambda>(q, c). q \<notin> path_join d ` set (filter m (glob_sync st d))) (files st)"

section \<open>The packager factory\<close>

text \<open>
  The factory looks its argument up with \<^verbatim>\<open>_.has(registeredPackagers, packagerId)\<close>.
  Lodash reads the second argument as a property path, so the objects in the registry
  matter beyond their names: a JavaScript value is modelled as the tree of its own
  properties.
\<close>

datatype jsvalue = JSValue "(string \<times> jsvalue) list"

fun own_properties :: "jsvalue \<Rightarrow> (string \<times> jsvalue) list" where
  "own_properties (JSValue ps) = ps"

text \<open>
  Lodash's \<^verbatim>\<open>isKey\<close> for a string: it is a property name, not a path, when it
  matches \<^verbatim>\<open>/^\w*$/\<close>, or does not match \<^verbatim>\<open>reIsDeepProp\<close> (a dot, or an opening
  bracket with a closing one somewhere after it), or is a property of the object.
\<close>

definition word_char :: "char \<Rightarrow> bool" where
  "word_char c = (c \<in> set ''abcdefghijklmnopqrstuvwxyzABCDEFGHIJKLMNOPQRSTUVWXYZ0123456789_'')"

definition reIsPlainProp :: "string \<Rightarrow> bool" where
  "reIsPlainProp s = list_all word_char s"

definition reIsDeepProp :: "string \<Rightarrow> bool" where
  "reIsDeepProp s = (CHR ''.'' \<in> set s \<or> CHR '']'' \<in> set (dropWhile (\<lambda>c. c \<noteq> CHR ''['') s))"

definition isKey :: "string \<Rightarrow> jsvalue \<Rightarrow> bool" where
  "isKey v object =
     (reIsPlainProp v \<or> \<not> reIsDeepProp v \<or> map_of (own_properties object) v \<noteq> None)"

text \<open>
  Lodash's \<^verbatim>\<open>stringToPath\<close>: the matches of \<^verbatim>\<open>rePropName\<close>, scanned from left to
  right. At each position the expression tries, in this order: a run of characters
  other than dot and brackets; a bracketed number or quoted string, whose content is
  the key (a quoted one with its escapes removed); the empty key, where a dot or
  \<^verbatim>\<open>[]\<close> is followed by another or by the end. Where none matches, the scan moves
  one character on, as it does after an empty match. A leading dot gives an empty
  first key.
\<close>

definition special :: "char \<Rightarrow> bool" where
  "special c = (c = CHR ''.'' \<or> c = CHR ''['' \<or> c = CHR '']'')"

definition isDigit :: "char \<Rightarrow> bool" where
  "isDigit c = (c \<in> set ''0123456789'')"

definition closing :: "string \<Rightarrow> string option" where
  "closing cs = (case cs of [] \<Rightarrow> None | c # r \<Rightarrow> if c = CHR '']'' then Some r else None)"

definition bracket_number :: "string \<Rightarrow> (string \<times> string) option" where
  "bracket_number cs =
     (let sign = (if cs \<noteq> [] \<and> hd cs = CHR ''-'' then ''-'' else []);
          r0 = drop (length sign) cs;
          ds = takeWhile isDigit r0;
          r1 = dropWhile isDigit r0
      in if ds = [] then None
         else (case closing r1 of
                 Some rest \<Rightarrow> Some (sign @ ds, rest)
               | None \<Rightarrow>
                   if r1 \<noteq> [] \<and> hd r1 = CHR ''.'' then
                     (let fs = takeWhile isDigit (tl r1); r3 = dropWhile isDigit (tl r1)
                      in if fs = [] then None
                         else map_option (\<lambda>rest. (sign @ ds @ ''.'' @ fs, rest)) (closing r3))
                   else None))"

fun quoted_body :: "char \<Rightarrow> string \<Rightarrow> (string \<times> string) option" where
  "quoted_body q [] = None"
| "quoted_body q [c] = (if c = q then Some ([], []) else None)"
| "quoted_body q (c # e # r) =
     (if c = q then Some ([], e # r)
      else if c = CHR 0x5C then
        (if e = CHR 0x0A \<or> e = CHR 0x0D then None
         else map_option (\<lambda>(b, rest). (c # e # b, rest)) (quoted_body q r))
      else map_option (\<lambda>(b, rest). (c # b, rest)) (quoted_body q (e # r)))"

fun unescape :: "string \<Rightarrow> string" where
  "unescape [] = []"
| "unescape [c] = (if c = CHR 0x5C then [] else [c])"
| "unescape (c # e # r) =
     (if c = CHR 0x5C then (if e = CHR 0x5C then e # unescape r else unescape (e # r))
      else c # unescape (e # r))"

definition bracket_quoted :: "string \<Rightarrow> (string \<times> string) option" where
  "bracket_quoted cs =
     (if cs \<noteq> [] \<and> (hd cs = CHR 0x22 \<or> hd cs = CHR 0x27) then
        (case quoted_body (hd cs) (tl cs) of
           None \<Rightarrow> None
         | Some (b, rest) \<Rightarrow> map_option (\<lambda>rest'. (unescape b, rest')) (closing rest))
      else None)"

definition bracket_key :: "string \<Rightarrow> (string \<times> string) option" where
  "bracket_key cs = (case bracket_number cs of Some m \<Rightarrow> Some m | None \<Rightarrow> bracket_quoted cs)"

definition separator_ahead :: "string \<Rightarrow> string option" where
  "separator_ahead cs =
     (case cs of
        [] \<Rightarrow> None
      | c # r \<Rightarrow>
          if c = CHR ''.'' then Some r
          else (case r of
                  [] \<Rightarrow> None
                | c2 # r2 \<Rightarrow> if c = CHR ''['' \<and> c2 = CHR '']'' then Some r2 else None))"

definition empty_key_ahead :: "string \<Rightarrow> bool" where
  "empty_key_ahead cs =
     (case separator_ahead cs of None \<Rightarrow> False | Some r \<Rightarrow> r = [] \<or> separator_ahead r \<noteq> None)"

lemma closing_rest: "closing cs = Some r \<Longrightarrow> length r \<le> length cs"
  by (cases cs) (auto simp: closing_def split: if_splits)

lemma bracket_number_rest:
  assumes "bracket_number cs = Some (k, rest)"
  shows "length rest \<le> length cs"
proof -
  let ?sign = "(if cs \<noteq> [] \<and> hd cs = CHR ''-'' then ''-'' else [])"
  let ?r1 = "dropWhile isDigit (drop (length ?sign) cs)"
  let ?r3 = "dropWhile isDigit (tl ?r1)"
  have l1: "length ?r1 \<le> length cs"
    using length_dropWhile_le [of isDigit "drop (length ?sign) cs"] by simp
  have l3: "length ?r3 \<le> length cs"
    using length_dropWhile_le [of isDigit "tl ?r1"] l1 by simp
  from assms have "closing ?r1 = Some rest \<or> closing ?r3 = Some rest"
    unfolding bracket_number_def Let_def
    by (auto split: if_splits option.splits)
  then show ?thesis
    using l1 l3 closing_rest [of ?r1 rest] closing_rest [of ?r3 rest] by auto
qed

lemma quoted_body_rest: "quoted_body q cs = Some (b, rest) \<Longrightarrow> length rest \<le> length cs"
proof (induction q cs arbitrary: b rest rule: quoted_body.induct)
  case (1 q)
  then show ?case by simp
next
  case (2 q c)
  then show ?case by (simp split: if_splits)
next
  case (3 q c e r)
  show ?case
  proof (cases "c = q")
    case True
    with "3.prems" show ?thesis by simp
  next
    case ne: False
    show ?thesis
    proof (cases "c = CHR 0x5C")
      case True
      with ne "3.prems" obtain b' where "quoted_body q r = Some (b', rest)"
        by (auto split: if_splits)
      from "3.IH"(1) [OF ne True _ this] True ne "3.prems" show ?thesis
        by (auto split: if_splits)
    next
      case False
      with ne "3.prems" obtain b' where "quoted_body q (e # r) = Some (b', rest)"
        by auto
      from "3.IH"(2) [OF ne False this] show ?thesis by simp
    qed
  qed
qed

lemma bracket_quoted_rest: "bracket_quoted cs = Some (k, rest) \<Longrightarrow> length rest \<le> length cs"
proof -
  assume a: "bracket_quoted cs = Some (k, rest)"
  then obtain b r where q: "quoted_body (hd cs) (tl cs) = Some (b, r)" and c: "closing r = Some rest"
    by (auto simp: bracket_quoted_def split: if_splits option.splits)
  from quoted_body_rest [OF q] closing_rest [OF c] show ?thesis by simp
qed

lemma bracket_key_rest: "bracket_key cs = Some (k, rest) \<Longrightarrow> length rest \<le> length cs"
  by (auto simp: bracket_key_def split: option.splits
           dest: bracket_number_rest bracket_quoted_rest)

function rePropName_matches :: "string \<Rightarrow> string list" where
  "rePropName_matches [] = []"
| "rePropName_matches (c # cs) =
     (if \<not> special c then
        (c # takeWhile (\<lambda>x. \<not> special x) cs) # rePropName_matches (dropWhile (\<lambda>x. \<not> special x) cs)
      else
        (case (if c = CHR ''['' then bracket_key cs else None) of
           Some (key, rest) \<Rightarrow> key # rePropName_matches rest
         | None \<Rightarrow>
             if empty_key_ahead (c # cs) then [] # rePropName_matches cs
             else rePropName_matches cs))"
  by pat_completeness auto
termination
proof (relation "measure length")
  show "wf (measure length)" by simp
next
  fix c :: char and cs :: string
  show "(dropWhile (\<lambda>x. \<not> special x) cs, c # cs) \<in> measure length"
    using length_dropWhile_le [of "\<lambda>x. \<not> special x" cs] by simp
next
  fix c :: char and cs x2 x y
  assume "(if c = CHR ''['' then bracket_key cs else None) = Some x2" "(x, y) = x2"
  then have "bracket_key cs = Some (x, y)" by (auto split: if_splits)
  from bracket_key_rest [OF this] show "(y, c # cs) \<in> measure length" by simp
qed simp_all

definition stringToPath :: "string \<Rightarrow> string list" where
  "stringToPath s = (if s \<noteq> [] \<and> hd s = CHR ''.'' then [[]] else []) @ rePropName_matches s"

text \<open>
  \<^verbatim>\<open>castPath\<close>, \<^verbatim>\<open>hasPath\<close> with \<^verbatim>\<open>baseHas\<close>, and \<^verbatim>\<open>_.has\<close>: every key of the path
  must be an own property of the value the keys before it lead to. (For a key that
  is missing at the end of the path, lodash still accepts an index into an array;
  the values here are not arrays.)
\<close>

definition castPath :: "string \<Rightarrow> jsvalue \<Rightarrow> string list" where
  "castPath v object = (if isKey v object then [v] else stringToPath v)"

fun hasPath :: "jsvalue \<Rightarrow> string list \<Rightarrow> bool" where
  "hasPath object [] = False"
| "hasPath object (key # rest) =
     (case map_of (own_properties object) key of
        None \<Rightarrow> False
      | Some v \<Rightarrow> if rest = [] then True else hasPath v rest)"

definition lodash_has :: "jsvalue \<Rightarrow> string \<Rightarrow> bool" where
  "lodash_has object path = hasPath object (castPath path object)"

text \<open>
  The registry and the factory \<^verbatim>\<open>exports.get\<close>. The modules \<^verbatim>\<open>./npm\<close> and
  \<^verbatim>\<open>./yarn\<close> are parameters. The result is \<^verbatim>\<open>registeredPackagers[packagerId]\<close>,
  the value under that one name, \<open>None\<close> when it is \<^verbatim>\<open>undefined\<close>.
\<close>

definition registeredPackagers :: "jsvalue \<Rightarrow> jsvalue \<Rightarrow> (string \<times> jsvalue) list" where
  "registeredPackagers npm yarn = [(''npm'', npm), (''yarn'', yarn)]"

definition get ::
  "plugin \<Rightarrow> jsvalue \<Rightarrow> jsvalue \<Rightarrow> string \<Rightarrow> event list \<Rightarrow> (error + jsvalue option) \<times> event list" where
  "get this npm yarn packagerId out =
     (if \<not> lodash_has (JSValue (registeredPackagers npm yarn)) packagerId then
        (let message = ''Could not find packager '' @ [CHR 0x27] @ packagerId @ [CHR 0x27]
         in (Inl (ServerlessError message),
             if log this
             then out @ [LogError (''Could not find packager '' @ [CHR 0x22] @ packagerId @ [CHR 0x22])]
             else out @ [CliLog (''ERROR: '' @ message)]))
      else (Inr (map_of (registeredPackagers npm yarn) packagerId), out))"

section \<open>Concrete instances\<close>

text \<open>A host older than 1.18.0 with the legacy logger, and a current one with the modern logger.\<close>

definition v1_17_0 :: semver where
  "v1_17_0 = \<lparr>major = 1, minor = 17, patch = 0, prerelease = []\<rparr>"

definition v3_38_0 :: semver where
  "v3_38_0 = \<lparr>major = 3, minor = 38, patch = 0, prerelease = []\<rparr>"

definition legacy_plugin :: plugin where
  "legacy_plugin = \<lparr>log = False, verbose = False, function_option = None, excludeRegex = None,
     webpackOutputPath = ''.webpack'', version = v1_17_0, serviceName = ''svc'',
     allNodeFunctions = [''f1'', ''f2''], providerIsGoogle = False\<rparr>"

definition modern_plugin :: plugin where
  "modern_plugin = \<lparr>log = True, verbose = False, function_option = None, excludeRegex = None,
     webpackOutputPath = ''.webpack'', version = v3_38_0, serviceName = ''svc'',
     allNodeFunctions = [''f1'', ''f2''], providerIsGoogle = False\<rparr>"

text \<open>A function record that already carries packaging settings of its own.\<close>

definition packaged_func :: func where
  "packaged_func = \<lparr>handler = ''src/f1.handler'', artifact = None,
     package = Some [(''individually'', JBool True), (''disable'', JBool False)]\<rparr>"

text \<open>A function record as the service declares it, and an archive a build left behind.\<close>

definition plain_func :: func where
  "plain_func = \<lparr>handler = ''src/handler.main'', artifact = None, package = None\<rparr>"

definition built_archive :: content where
  "built_archive = Zip [(''index.js'', Data ''exports.main = 1'')] True"

text \<open>A service of two functions after a build, packaged as one unit or individually.\<close>

definition unified_state :: state where
  "unified_state = \<lparr>files = [(''.webpack'', Directory),
                              (''.webpack/f1.zip'', built_archive), (''.webpack/f2.zip'', built_archive),
                              (''.webpack/svc.zip'', built_archive)],
     unreadable = [], unwritable = [],
     service_functions = [''f1'' \<mapsto> plain_func, ''f2'' \<mapsto> plain_func],
     service_package = [], printed = []\<rparr>"

definition individual_state :: state where
  "individual_state = unified_state\<lparr>service_package := [(''individually'', JBool True)]\<rparr>"

text \<open>A service whose two function names differ by a leading \<^verbatim>\<open>./\<close>.\<close>

definition dotted_plugin :: plugin where
  "dotted_plugin = modern_plugin\<lparr>allNodeFunctions := [''a'', ''./a'']\<rparr>"

definition dotted_state :: state where
  "dotted_state = \<lparr>files = [(''.webpack'', Directory), (''.webpack/a.zip'', built_archive)],
     unreadable = [], unwritable = [],
     service_functions = [''a'' \<mapsto> plain_func, ''./a'' \<mapsto> plain_func],
     service_package = [(''individually'', JBool True)], printed = []\<rparr>"

text \<open>
  Variants of the hosts above: one deploying to Google, one called with \<^verbatim>\<open>-f f1\<close>,
  and an old host that has the modern logger. And a service that was never built.
\<close>

definition google_plugin :: plugin where
  "google_plugin = modern_plugin\<lparr>providerIsGoogle := True\<rparr>"

definition selected_plugin :: plugin where
  "selected_plugin = modern_plugin\<lparr>function_option := Some ''f1''\<rparr>"

definition old_host_modern_logger :: plugin where
  "old_host_modern_logger = legacy_plugin\<lparr>log := True\<rparr>"

definition unbuilt_state :: state where
  "unbuilt_state = individual_state\<lparr>files := []\<rparr>"

text \<open>
  A build output directory with a source map and a file in a subdirectory; hosts that
  exclude source maps, everything, or archives; the same directory with a file that
  cannot be read, and with an archive path that cannot be written; and a directory
  that holds the archive of an earlier build, with the output path set to that same
  directory.
\<close>

definition map_excluding_plugin :: plugin where
  "map_excluding_plugin = legacy_plugin\<lparr>excludeRegex := Some (suffix ''.map'')\<rparr>"

definition all_excluding_plugin :: plugin where
  "all_excluding_plugin = legacy_plugin\<lparr>excludeRegex := Some (\<lambda>file. True)\<rparr>"

definition service_dir_state :: state where
  "service_dir_state = \<lparr>files = [(''.webpack'', Directory),
                                 (''.webpack/service'', Directory),
                                 (''.webpack/service/index.js'', Data ''exports.main = 1''),
                                 (''.webpack/service/index.js.map'', Data ''{}''),
                                 (''.webpack/service/lib'', Directory),
                                 (''.webpack/service/lib/util.js'', Data ''exports.id = 2'')],
     unreadable = [], unwritable = [],
     service_functions = [''f1'' \<mapsto> plain_func, ''f2'' \<mapsto> plain_func],
     service_package = [], printed = []\<rparr>"

definition unreadable_state :: state where
  "unreadable_state = service_dir_state\<lparr>unreadable := [''.webpack/service/lib/util.js'']\<rparr>"

definition unwritable_state :: state where
  "unwritable_state = service_dir_state\<lparr>unwritable := [''.webpack/svc.zip'']\<rparr>"

definition zip_excluding_plugin :: plugin where
  "zip_excluding_plugin = legacy_plugin\<lparr>excludeRegex := Some (suffix ''.zip''),
                                          webpackOutputPath := ''.webpack/service''\<rparr>"

definition stale_archive_state :: state where
  "stale_archive_state = \<lparr>files = [(''.webpack'', Directory),
                                   (''.webpack/service'', Directory),
                                   (''.webpack/service/index.js'', Data ''exports.main = 1''),
                                   (''.webpack/service/svc.zip'', built_archive)],
     unreadable = [], unwritable = [],
     service_functions = [''f1'' \<mapsto> plain_func, ''f2'' \<mapsto> plain_func],
     service_package = [], printed = []\<rparr>"

text \<open>
  Packager modules with the static members that the interface comment of the source
  requires of every packager.
\<close>

definition packager_members :: "string list" where
  "packager_members =
     [''lockfileName'', ''copyPackageSectionNames'', ''mustCopyModules'', ''getPackagerVersion'',
      ''getProdDependencies'', ''rebaseLockfile'', ''install'', ''prune'', ''runScripts'']"

definition npm_packager :: jsvalue where
  "npm_packager = JSValue (map (\<lambda>name. (name, JSValue [])) packager_members)"

definition yarn_packager :: jsvalue where
  "yarn_packager = JSValue (map (\<lambda>name. (name, JSValue [])) packager_members)"

section \<open>Facts about objects and versions\<close>

lemma map_of_js_set: "map_of (js_set k v ps) = (map_of ps)(k \<mapsto> v)"
  by (induction ps) (auto simp: fun_eq_iff)

lemma map_of_js_assign_disable:
  "map_of (js_assign p [(''disable'', JBool True)]) = (map_of p)(''disable'' \<mapsto> JBool True)"
  by (simp add: js_assign_def map_of_js_set)

lemma legacy_below_threshold: "semver_lt (version legacy_plugin) v1_18_0"
  by (simp add: legacy_plugin_def v1_17_0_def v1_18_0_def semver_lt_def semver_compare_def
      compareMain_def compareNat_def comparePre_def)

lemma modern_not_below_threshold: "\<not> semver_lt (version modern_plugin) v1_18_0"
  by (simp add: modern_plugin_def v3_38_0_def v1_18_0_def semver_lt_def semver_compare_def
      compareMain_def compareNat_def comparePre_def)

section \<open>The two shapes of an artifact assignment\<close>

text \<open>
  Claim C10. The two shapes differ in what they keep of the function record. From
  1.18.0 on, \<^verbatim>\<open>setArtifactPath\<close> replaces the whole package object by one that
  holds the artifact path and nothing else, so every field the object had is gone.
  Below 1.18.0 it merges: the new package object has the disable flag set, and each
  other field is what the old object had. No other field of the record changes,
  except the flat artifact field below the threshold.
\<close>

theorem setArtifactPath_package_frame:
  assumes "setArtifactPath this funcName fn artifactPath out = (fn', out')"
  shows "(\<not> semver_lt (version this) v1_18_0 \<longrightarrow>
            package fn' = Some [(''artifact'', JStr artifactPath)] \<and> artifact fn' = artifact fn)
       \<and> (semver_lt (version this) v1_18_0 \<longrightarrow>
            (\<exists>p'. package fn' = Some p'
               \<and> map_of p' ''disable'' = Some (JBool True)
               \<and> (\<forall>k. k \<noteq> ''disable'' \<longrightarrow>
                      map_of p' k = (case package fn of None \<Rightarrow> None | Some p \<Rightarrow> map_of p k))))
       \<and> handler fn' = handler fn"
  using assms
  by (auto simp: setArtifactPath_def Let_def map_of_js_assign_disable split: if_splits option.splits)

theorem setArtifactPath_package_frame_witness:
  "package (fst (setArtifactPath modern_plugin ''f1'' packaged_func ''.serverless/f1.zip'' []))
     = Some [(''artifact'', JStr ''.serverless/f1.zip'')]
   \<and> (\<exists>p'. package (fst (setArtifactPath legacy_plugin ''f1'' packaged_func ''.serverless/f1.zip'' [])) = Some p'
          \<and> map_of p' ''disable'' = Some (JBool True)
          \<and> map_of p' ''individually'' = Some (JBool True))"
proof -
  have new: "package (fst (setArtifactPath modern_plugin ''f1'' packaged_func ''.serverless/f1.zip'' []))
     = Some [(''artifact'', JStr ''.serverless/f1.zip'')]"
    using setArtifactPath_package_frame [OF surjective_pairing, of modern_plugin "''f1''" packaged_func
        "''.serverless/f1.zip''" "[]"] modern_not_below_threshold
    by simp
  obtain p' where old: "package (fst (setArtifactPath legacy_plugin ''f1'' packaged_func ''.serverless/f1.zip'' [])) = Some p'"
      "map_of p' ''disable'' = Some (JBool True)"
      "\<forall>k. k \<noteq> ''disable'' \<longrightarrow>
          map_of p' k = (case package packaged_func of None \<Rightarrow> None | Some p \<Rightarrow> map_of p k)"
    using setArtifactPath_package_frame [OF surjective_pairing, of legacy_plugin "''f1''" packaged_func
        "''.serverless/f1.zip''" "[]"] legacy_below_threshold
    by blast
  from old(3) have "map_of p' ''individually'' = Some (JBool True)"
    by (simp add: packaged_func_def)
  with new old(1,2) show ?thesis by blast
qed

section \<open>Facts about paths\<close>

lemma split_on_not_Nil: "split_on c s \<noteq> []"
  by (induction s) (auto split: list.splits)

lemma split_on_append: "split_on c (a @ c # b) = split_on c a @ split_on c b"
proof (induction a)
  case Nil
  then show ?case by simp
next
  case (Cons x xs)
  then show ?case
    using split_on_not_Nil [of c xs]
    by (cases "split_on c xs") auto
qed

lemma join_split: "join_segments (split_on CHR ''/'' s) = s"
proof (induction s)
  case Nil
  then show ?case by simp
next
  case (Cons x xs)
  obtain t ts where sp: "split_on CHR ''/'' xs = t # ts"
    using split_on_not_Nil [of "CHR ''/''" xs] by (cases "split_on CHR ''/'' xs") auto
  with Cons show ?case by (cases ts) auto
qed

lemma join_segments_append:
  "xs \<noteq> [] \<Longrightarrow> ys \<noteq> [] \<Longrightarrow> join_segments (xs @ ys) = join_segments xs @ CHR ''/'' # join_segments ys"
  by (induction xs rule: join_segments.induct) (auto simp: neq_Nil_conv)

lemma foldl_normalize_plain:
  "list_all (\<lambda>s. s \<noteq> [] \<and> s \<noteq> ''.'' \<and> s \<noteq> ''..'') segs \<Longrightarrow>
   foldl (normalize_step b) acc segs = acc @ segs"
  by (induction segs arbitrary: acc) (auto simp: normalize_step_def)

lemma split_on_hd: "s \<noteq> [] \<Longrightarrow> hd s = c \<Longrightarrow> hd (split_on c s) = []"
  by (cases s) auto

lemma split_on_eq_empty_segment: "split_on c s = [[]] \<Longrightarrow> s = []"
  by (cases s) (auto split: if_splits list.splits simp: split_on_not_Nil)

lemma split_on_last: "s \<noteq> [] \<Longrightarrow> last s = c \<Longrightarrow> last (split_on c s) = []"
proof (induction s)
  case Nil
  then show ?case by simp
next
  case (Cons x xs)
  show ?case
  proof (cases "xs = []")
    case True
    with Cons.prems show ?thesis by simp
  next
    case False
    with Cons have "last (split_on c xs) = []" by simp
    then show ?thesis
      using split_on_not_Nil [of c xs] split_on_eq_empty_segment [of c xs] False
      by (cases "split_on c xs") (auto split: if_splits)
  qed
qed

lemma relative_path_ends:
  assumes "relative_path r"
  shows "r \<noteq> []" and "hd r \<noteq> CHR ''/''" and "last r \<noteq> CHR ''/''"
proof -
  let ?segs = "split_on CHR ''/'' r"
  from assms have all: "\<forall>s \<in> set ?segs. s \<noteq> []"
    by (auto simp: relative_path_def list_all_iff)
  have ne: "?segs \<noteq> []" by (rule split_on_not_Nil)
  show "r \<noteq> []"
    using all by auto
  then show "hd r \<noteq> CHR ''/''"
    using all ne split_on_hd [of r "CHR ''/''"] hd_in_set [OF ne] by metis
  show "last r \<noteq> CHR ''/''"
    using all ne \<open>r \<noteq> []\<close> split_on_last [of r "CHR ''/''"] last_in_set [OF ne] by metis
qed

lemma path_join_relative:
  assumes "relative_path r"
  shows "path_join d r = dir_base d @ r"
proof -
  note ends = relative_path_ends [OF assms]
  let ?segs = "split_on CHR ''/'' r"
  have plain: "list_all (\<lambda>s. s \<noteq> [] \<and> s \<noteq> ''.'' \<and> s \<noteq> ''..'') ?segs"
    using assms by (simp add: relative_path_def)
  have segs_ne: "?segs \<noteq> []" by (rule split_on_not_Nil)
  show ?thesis
  proof (cases "d = []")
    case True
    have "normalizeString r True = r"
      by (simp add: normalizeString_def foldl_normalize_plain [OF plain] join_split)
    with True ends show ?thesis
      by (simp add: path_join_def path_normalize_def dir_base_def Let_def)
  next
    case False
    let ?b = "hd d \<noteq> CHR ''/''"
    let ?stack = "foldl (normalize_step ?b) [] (split_on CHR ''/'' d)"
    have ns: "normalizeString (d @ CHR ''/'' # r) ?b = join_segments (?stack @ ?segs)"
      by (simp add: normalizeString_def split_on_append foldl_normalize_plain [OF plain])
    have js: "join_segments (?stack @ ?segs) = (if ?stack = [] then r else join_segments ?stack @ CHR ''/'' # r)"
      using segs_ne by (simp add: join_segments_append join_split)
    have nonempty: "join_segments (?stack @ ?segs) \<noteq> []"
      using js ends(1) by auto
    have hd_eq: "hd (d @ CHR ''/'' # r) = hd d" using False by simp
    have last_eq: "last (d @ CHR ''/'' # r) = last r" using ends(1) by simp
    show ?thesis
      using False ends nonempty
      by (simp add: path_join_def path_normalize_def dir_base_def Let_def ns js hd_eq last_eq
               del: foldl_append)
  qed
qed

lemma path_join_inject:
  "relative_path r \<Longrightarrow> relative_path r' \<Longrightarrow> path_join d r = path_join d r' \<Longrightarrow> r = r'"
  by (simp add: path_join_relative)

lemma split_on_no_sep: "c \<notin> set s \<Longrightarrow> split_on c s = [s]"
  by (induction s) auto

lemma zip_name_relative: "CHR ''/'' \<notin> set n \<Longrightarrow> relative_path (n @ ''.zip'')"
proof -
  assume "CHR ''/'' \<notin> set n"
  then have "split_on CHR ''/'' (n @ ''.zip'') = [n @ ''.zip'']"
    by (intro split_on_no_sep) simp
  moreover have "n @ ''.zip'' \<noteq> ''.''" "n @ ''.zip'' \<noteq> ''..''"
    by (auto simp: append_eq_Cons_conv)
  ultimately show ?thesis by (simp add: relative_path_def)
qed

lemma dir_base_serverless: "dir_base ''.serverless'' = ''.serverless/''"
  by (simp add: dir_base_def normalize_step_def)

lemma deploy_path: "CHR ''/'' \<notin> set n \<Longrightarrow> snd (getArtifactLocations this n) = ''.serverless/'' @ n @ ''.zip''"
  by (simp add: getArtifactLocations_def Let_def path_join_relative zip_name_relative dir_base_serverless)

section \<open>The passes of the distributor\<close>

lemma setArtifactPath_binding:
  "artifact_binding this (fst (setArtifactPath this funcName fn artifactPath out)) = Some artifactPath"
  by (simp add: setArtifactPath_def artifact_binding_def Let_def)

lemma copyFileSync_frame:
  "copyFileSync src dest st = (r, st') \<Longrightarrow>
   service_functions st' = service_functions st \<and> service_package st' = service_package st
   \<and> printed st' = printed st"
  by (auto simp: copyFileSync_def split: option.splits if_splits)

lemma make_directories_frame:
  "make_directories qs st = (r, st') \<Longrightarrow>
   service_functions st' = service_functions st \<and> service_package st' = service_package st
   \<and> printed st' = printed st \<and> unreadable st' = unreadable st \<and> unwritable st' = unwritable st"
proof (induction qs arbitrary: st)
  case Nil
  then show ?case by auto
next
  case (Cons q qs)
  show ?case
  proof (cases "map_of (files st) q")
    case None
    with Cons.prems
    have "make_directories qs (st\<lparr>files := files st @ [(q, Directory)]\<rparr>) = (r, st')" by simp
    from Cons.IH [OF this] show ?thesis by simp
  next
    case (Some c)
    show ?thesis
    proof (cases "c = Directory")
      case True
      with Some Cons.prems have "make_directories qs st = (r, st')" by simp
      from Cons.IH [OF this] show ?thesis .
    next
      case False
      with Some Cons.prems show ?thesis by auto
    qed
  qed
qed

lemma writeFileDir_frame:
  "writeFileDir p st = (r, st') \<Longrightarrow>
   service_functions st' = service_functions st \<and> service_package st' = service_package st
   \<and> printed st' = printed st \<and> unreadable st' = unreadable st \<and> unwritable st' = unwritable st"
  unfolding writeFileDir_def by (rule make_directories_frame)

lemma copyArtifactByName_frame:
  assumes "copyArtifactByName this n st = (r, st')"
  shows "service_functions st' = service_functions st \<and> service_package st' = service_package st
   \<and> printed st' = printed st"
proof -
  obtain r1 st1 where w: "writeFileDir (snd (getArtifactLocations this n)) st = (r1, st1)"
    by (cases "writeFileDir (snd (getArtifactLocations this n)) st")
  note fr = writeFileDir_frame [OF w]
  show ?thesis
  proof (cases r1)
    case (Inl e)
    with assms w fr show ?thesis
      by (auto simp: copyArtifactByName_def Let_def case_prod_unfold)
  next
    case (Inr u)
    with assms w
    have "copyFileSync (fst (getArtifactLocations this n)) (snd (getArtifactLocations this n)) st1 = (r, st')"
      by (auto simp: copyArtifactByName_def Let_def case_prod_unfold)
    from copyFileSync_frame [OF this] fr show ?thesis by simp
  qed
qed

lemma forEach_copy_frame:
  "forEach (copyArtifactByName this) ns st = (r, st') \<Longrightarrow>
   service_functions st' = service_functions st \<and> service_package st' = service_package st
   \<and> printed st' = printed st"
proof (induction ns arbitrary: st)
  case Nil
  then show ?case by simp
next
  case (Cons n ns)
  obtain r1 st1 where step: "copyArtifactByName this n st = (r1, st1)"
    by (cases "copyArtifactByName this n st")
  note fr = copyArtifactByName_frame [OF step]
  show ?case
  proof (cases r1)
    case (Inl e)
    with Cons.prems step fr show ?thesis by simp
  next
    case (Inr u)
    with Cons.prems step have "forEach (copyArtifactByName this) ns st1 = (r, st')" by simp
    from Cons.IH [OF this] fr show ?thesis by simp
  qed
qed

lemma copy_pass_frame:
  "copy_pass this ind st = (r, st') \<Longrightarrow>
   service_functions st' = service_functions st \<and> service_package st' = service_package st
   \<and> printed st' = printed st"
  by (auto simp: copy_pass_def split: if_splits dest: forEach_copy_frame copyArtifactByName_frame)

lemma assign_artifact_ok:
  assumes "assign_artifact this ind f st = (Inr u, st')"
  shows "function_binding this st' f
           = Some (snd (getArtifactLocations this (if ind then f else serviceName this)))"
    and "\<And>g. g \<noteq> f \<Longrightarrow> service_functions st' g = service_functions st g"
    and "service_package st' = service_package st"
    and "files st' = files st"
proof -
  from assms obtain fn where fn: "service_functions st f = Some fn"
    by (auto simp: assign_artifact_def split: option.splits)
  let ?p = "snd (getArtifactLocations this (if ind then f else serviceName this))"
  from assms fn have st': "st' = st\<lparr>service_functions := (service_functions st)(f \<mapsto>
        fst (setArtifactPath this f fn ?p (printed st))),
        printed := snd (setArtifactPath this f fn ?p (printed st))\<rparr>"
    by (auto simp: assign_artifact_def Let_def split: prod.splits)
  show "function_binding this st' f = Some ?p"
    by (simp add: st' function_binding_def setArtifactPath_binding)
  show "\<And>g. g \<noteq> f \<Longrightarrow> service_functions st' g = service_functions st g"
    by (simp add: st')
  show "service_package st' = service_package st" "files st' = files st"
    by (simp_all add: st')
qed

lemma assign_artifact_error:
  "assign_artifact this ind f st = (Inl e, st') \<Longrightarrow> st' = st"
  by (auto simp: assign_artifact_def Let_def split: option.splits prod.splits)

lemma forEach_assign_ok:
  "forEach (assign_artifact this ind) ns st = (Inr u, st') \<Longrightarrow>
   (\<forall>f \<in> set ns. function_binding this st' f
        = Some (snd (getArtifactLocations this (if ind then f else serviceName this))))
   \<and> (\<forall>g. g \<notin> set ns \<longrightarrow> service_functions st' g = service_functions st g)
   \<and> service_package st' = service_package st \<and> files st' = files st"
proof (induction ns arbitrary: st)
  case Nil
  then show ?case by simp
next
  case (Cons n ns)
  obtain r1 st1 where step: "assign_artifact this ind n st = (r1, st1)"
    by (cases "assign_artifact this ind n st")
  with Cons.prems obtain v where r1: "r1 = Inr v"
    by (cases r1) auto
  with Cons.prems step have rest: "forEach (assign_artifact this ind) ns st1 = (Inr u, st')"
    by simp
  note ih = Cons.IH [OF rest]
  note ok = assign_artifact_ok [OF step [unfolded r1]]
  have "function_binding this st' n
          = Some (snd (getArtifactLocations this (if ind then n else serviceName this)))"
  proof (cases "n \<in> set ns")
    case True
    with ih show ?thesis by blast
  next
    case False
    with ih have "service_functions st' n = service_functions st1 n" by blast
    then have "function_binding this st' n = function_binding this st1 n"
      by (simp add: function_binding_def)
    with ok(1) show ?thesis by simp
  qed
  moreover have "\<forall>g. g \<notin> set (n # ns) \<longrightarrow> service_functions st' g = service_functions st g"
    using ih ok(2) by auto
  ultimately show ?case
    using ih ok(3,4) by auto
qed

text \<open>The assignment pass reads the function records and nothing else of the state.\<close>

lemma assign_artifact_independent:
  assumes "service_functions a = service_functions b"
    and "assign_artifact this ind f a = (ra, a')" and "assign_artifact this ind f b = (rb, b')"
  shows "ra = rb \<and> service_functions a' = service_functions b'"
proof (cases "service_functions a f")
  case None
  with assms show ?thesis by (auto simp: assign_artifact_def)
next
  case (Some fn)
  with assms show ?thesis
    by (auto simp: assign_artifact_def Let_def setArtifactPath_def split: prod.splits if_splits)
qed

lemma forEach_assign_independent:
  "service_functions a = service_functions b \<Longrightarrow>
   forEach (assign_artifact this ind) ns a = (ra, a') \<Longrightarrow>
   forEach (assign_artifact this ind) ns b = (rb, b') \<Longrightarrow>
   ra = rb \<and> service_functions a' = service_functions b'"
proof (induction ns arbitrary: a b)
  case Nil
  then show ?case by simp
next
  case (Cons n ns)
  obtain r1 a1 where sa: "assign_artifact this ind n a = (r1, a1)"
    by (cases "assign_artifact this ind n a")
  obtain r2 b1 where sb: "assign_artifact this ind n b = (r2, b1)"
    by (cases "assign_artifact this ind n b")
  note ind1 = assign_artifact_independent [OF Cons.prems(1) sa sb]
  show ?case
  proof (cases r1)
    case (Inl e)
    with ind1 Cons.prems sa sb show ?thesis by auto
  next
    case (Inr v)
    with ind1 have r2: "r2 = Inr v" by simp
    from Cons.prems(2) sa Inr have fa: "forEach (assign_artifact this ind) ns a1 = (ra, a')" by simp
    from Cons.prems(3) sb r2 have fb: "forEach (assign_artifact this ind) ns b1 = (rb, b')" by simp
    from Cons.IH [OF _ fa fb] ind1 show ?thesis by simp
  qed
qed

lemma forEach_assign_error_frame:
  "forEach (assign_artifact this ind) ns st = (r, st') \<Longrightarrow>
   service_package st' = service_package st \<and> files st' = files st"
proof (induction ns arbitrary: st)
  case Nil
  then show ?case by simp
next
  case (Cons n ns)
  obtain r1 st1 where step: "assign_artifact this ind n st = (r1, st1)"
    by (cases "assign_artifact this ind n st")
  show ?case
  proof (cases r1)
    case (Inl e)
    with Cons.prems step assign_artifact_error [of this ind n st e st1] show ?thesis by simp
  next
    case (Inr v)
    with Cons.prems step have "forEach (assign_artifact this ind) ns st1 = (r, st')" by simp
    from Cons.IH [OF this] assign_artifact_ok(3,4) [OF step [unfolded Inr]] show ?thesis by simp
  qed
qed

lemma copyExistingArtifacts_ok:
  assumes "copyExistingArtifacts this st = (Inr u, st')"
  obtains st1 st2 where
    "copy_pass this (isIndividualPackaging st) (announce this st) = (Inr (), st1)"
    "assignment_pass this (isIndividualPackaging st) st1 = (Inr (), st2)"
    "st' = (if \<not> isIndividualPackaging st \<and> providerIsGoogle this
            then setServiceArtifactPath (snd (getArtifactLocations this (serviceName this))) st2
            else st2)"
proof -
  have ind: "isIndividualPackaging (announce this st) = isIndividualPackaging st"
    by (simp add: isIndividualPackaging_def announce_def)
  from assms show thesis
    unfolding copyExistingArtifacts_def Let_def announce_def [symmetric] ind
    by (auto split: prod.splits sum.splits if_splits intro: that)
qed

section \<open>Individual and unified distribution\<close>

lemma functionNames_modern: "functionNames modern_plugin = [''f1'', ''f2'']"
  by (simp add: functionNames_def modern_plugin_def)

lemma unified_state_mode: "\<not> isIndividualPackaging unified_state"
  by (simp add: isIndividualPackaging_def unified_state_def)

lemma individual_state_mode: "isIndividualPackaging individual_state"
  by (simp add: isIndividualPackaging_def individual_state_def)

lemma run_unified:
  "copyExistingArtifacts modern_plugin unified_state
     = (Inr (), snd (copyExistingArtifacts modern_plugin unified_state))"
proof -
  have "fst (copyExistingArtifacts modern_plugin unified_state) = Inr ()" by code_simp
  then show ?thesis by (simp add: prod_eq_iff)
qed

lemma run_individual:
  "copyExistingArtifacts modern_plugin individual_state
     = (Inr (), snd (copyExistingArtifacts modern_plugin individual_state))"
proof -
  have "fst (copyExistingArtifacts modern_plugin individual_state) = Inr ()" by code_simp
  then show ?thesis by (simp add: prod_eq_iff)
qed

lemma completed_run_bindings:
  assumes "copyExistingArtifacts this st = (Inr u, st')"
  shows "\<forall>f \<in> set (functionNames this). function_binding this st' f
           = Some (snd (getArtifactLocations this (if isIndividualPackaging st then f else serviceName this)))"
    and "\<forall>g. g \<notin> set (functionNames this) \<longrightarrow> service_functions st' g = service_functions st g"
proof -
  from assms obtain st1 st2 where
    c: "copy_pass this (isIndividualPackaging st) (announce this st) = (Inr (), st1)" and
    a: "assignment_pass this (isIndividualPackaging st) st1 = (Inr (), st2)" and
    e: "st' = (if \<not> isIndividualPackaging st \<and> providerIsGoogle this
            then setServiceArtifactPath (snd (getArtifactLocations this (serviceName this))) st2
            else st2)"
    by (rule copyExistingArtifacts_ok)
  have sf: "service_functions st' = service_functions st2"
    by (simp add: e setServiceArtifactPath_def)
  then have fb: "function_binding this st' = function_binding this st2"
    by (simp add: function_binding_def fun_eq_iff)
  have s1: "service_functions st1 = service_functions st"
    using copy_pass_frame [OF c] by (simp add: announce_def)
  note ok = forEach_assign_ok [OF a [unfolded assignment_pass_def]]
  show "\<forall>f \<in> set (functionNames this). function_binding this st' f
           = Some (snd (getArtifactLocations this (if isIndividualPackaging st then f else serviceName this)))"
    using ok fb by simp
  show "\<forall>g. g \<notin> set (functionNames this) \<longrightarrow> service_functions st' g = service_functions st g"
    using ok sf s1 by simp
qed

text \<open>
  Claim C1, as the code has it. After a run of \<^verbatim>\<open>copyExistingArtifacts\<close> that
  completed: when the service is packaged as one unit, every function of the run is
  bound to the deploy-stage path of the service name; when functions are packaged
  individually, every function of the run is bound to the deploy-stage path of its
  own name, and two functions whose names differ and hold no path separator are
  bound to different paths.
\<close>

theorem distribution_bindings:
  assumes "copyExistingArtifacts this st = (Inr (), st')"
  shows "(\<not> isIndividualPackaging st \<longrightarrow>
           (\<forall>f \<in> set (functionNames this).
              function_binding this st' f = Some (snd (getArtifactLocations this (serviceName this)))))
       \<and> (isIndividualPackaging st \<longrightarrow>
           (\<forall>f \<in> set (functionNames this).
              function_binding this st' f = Some (snd (getArtifactLocations this f)))
         \<and> (\<forall>f \<in> set (functionNames this). \<forall>g \<in> set (functionNames this).
              f \<noteq> g \<and> CHR ''/'' \<notin> set f \<and> CHR ''/'' \<notin> set g \<longrightarrow>
              function_binding this st' f \<noteq> function_binding this st' g))"
proof (intro conjI impI)
  assume "\<not> isIndividualPackaging st"
  then show "\<forall>f \<in> set (functionNames this).
      function_binding this st' f = Some (snd (getArtifactLocations this (serviceName this)))"
    using completed_run_bindings(1) [OF assms] by simp
next
  assume ind: "isIndividualPackaging st"
  then show own: "\<forall>f \<in> set (functionNames this).
      function_binding this st' f = Some (snd (getArtifactLocations this f))"
    using completed_run_bindings(1) [OF assms] by simp
  show "\<forall>f \<in> set (functionNames this). \<forall>g \<in> set (functionNames this).
      f \<noteq> g \<and> CHR ''/'' \<notin> set f \<and> CHR ''/'' \<notin> set g \<longrightarrow>
      function_binding this st' f \<noteq> function_binding this st' g"
  proof (intro ballI impI)
    fix f g
    assume f: "f \<in> set (functionNames this)" and g: "g \<in> set (functionNames this)"
      and d: "f \<noteq> g \<and> CHR ''/'' \<notin> set f \<and> CHR ''/'' \<notin> set g"
    from d have "snd (getArtifactLocations this f) \<noteq> snd (getArtifactLocations this g)"
      by (simp add: deploy_path)
    with own f g show "function_binding this st' f \<noteq> function_binding this st' g"
      by simp
  qed
qed

theorem distribution_bindings_witness:
  "function_binding modern_plugin (snd (copyExistingArtifacts modern_plugin unified_state)) ''f1''
     = Some ''.serverless/svc.zip''
   \<and> function_binding modern_plugin (snd (copyExistingArtifacts modern_plugin unified_state)) ''f2''
     = Some ''.serverless/svc.zip''
   \<and> function_binding modern_plugin (snd (copyExistingArtifacts modern_plugin individual_state)) ''f1''
     = Some ''.serverless/f1.zip''
   \<and> function_binding modern_plugin (snd (copyExistingArtifacts modern_plugin individual_state)) ''f2''
     = Some ''.serverless/f2.zip''
   \<and> function_binding modern_plugin (snd (copyExistingArtifacts modern_plugin individual_state)) ''f1''
     \<noteq> function_binding modern_plugin (snd (copyExistingArtifacts modern_plugin individual_state)) ''f2''"
proof -
  have svc: "snd (getArtifactLocations modern_plugin (serviceName modern_plugin)) = ''.serverless/svc.zip''"
    by (simp add: deploy_path modern_plugin_def)
  have own: "snd (getArtifactLocations modern_plugin ''f1'') = ''.serverless/f1.zip''"
    "snd (getArtifactLocations modern_plugin ''f2'') = ''.serverless/f2.zip''"
    by (simp_all add: deploy_path)
  from distribution_bindings [OF run_unified] unified_state_mode
  have u: "\<forall>f \<in> set (functionNames modern_plugin).
      function_binding modern_plugin (snd (copyExistingArtifacts modern_plugin unified_state)) f
        = Some ''.serverless/svc.zip''"
    by (simp add: svc)
  from distribution_bindings [OF run_individual] individual_state_mode
  have i: "\<forall>f \<in> set (functionNames modern_plugin).
      function_binding modern_plugin (snd (copyExistingArtifacts modern_plugin individual_state)) f
        = Some (snd (getArtifactLocations modern_plugin f))"
    and d: "\<forall>f \<in> set (functionNames modern_plugin). \<forall>g \<in> set (functionNames modern_plugin).
      f \<noteq> g \<and> CHR ''/'' \<notin> set f \<and> CHR ''/'' \<notin> set g \<longrightarrow>
      function_binding modern_plugin (snd (copyExistingArtifacts modern_plugin individual_state)) f
        \<noteq> function_binding modern_plugin (snd (copyExistingArtifacts modern_plugin individual_state)) g"
    by blast+
  from d have "function_binding modern_plugin (snd (copyExistingArtifacts modern_plugin individual_state)) ''f1''
     \<noteq> function_binding modern_plugin (snd (copyExistingArtifacts modern_plugin individual_state)) ''f2''"
    by (simp add: functionNames_modern)
  with u i own show ?thesis
    by (simp add: functionNames_modern)
qed

text \<open>
  Two names that differ may still share a path: \<^verbatim>\<open>path.join\<close> normalizes, so the
  functions \<^verbatim>\<open>a\<close> and \<^verbatim>\<open>./a\<close> are both bound to \<^verbatim>\<open>.serverless/a.zip\<close>.
\<close>

theorem distinct_names_same_path:
  "''a'' \<noteq> ''./a''
   \<and> isIndividualPackaging dotted_state
   \<and> functionNames dotted_plugin = [''a'', ''./a'']
   \<and> fst (copyExistingArtifacts dotted_plugin dotted_state) = Inr ()
   \<and> function_binding dotted_plugin (snd (copyExistingArtifacts dotted_plugin dotted_state)) ''a''
       = Some ''.serverless/a.zip''
   \<and> function_binding dotted_plugin (snd (copyExistingArtifacts dotted_plugin dotted_state)) ''./a''
       = Some ''.serverless/a.zip''"
proof -
  have "isIndividualPackaging dotted_state"
    by (simp add: isIndividualPackaging_def dotted_state_def)
  moreover have "functionNames dotted_plugin = [''a'', ''./a'']"
    by (simp add: functionNames_def dotted_plugin_def modern_plugin_def)
  moreover have "fst (copyExistingArtifacts dotted_plugin dotted_state) = Inr ()"
    by code_simp
  moreover have "function_binding dotted_plugin (snd (copyExistingArtifacts dotted_plugin dotted_state)) ''a''
       = Some ''.serverless/a.zip''"
    by code_simp
  moreover have "function_binding dotted_plugin (snd (copyExistingArtifacts dotted_plugin dotted_state)) ''./a''
       = Some ''.serverless/a.zip''"
    by code_simp
  ultimately show ?thesis by simp
qed

section \<open>The provider special case\<close>

lemma copyExistingArtifacts_service_package:
  "copyExistingArtifacts this st = (r, st') \<Longrightarrow>
   isIndividualPackaging st \<or> \<not> providerIsGoogle this \<Longrightarrow>
   service_package st' = service_package st"
proof -
  assume run: "copyExistingArtifacts this st = (r, st')"
    and other: "isIndividualPackaging st \<or> \<not> providerIsGoogle this"
  have ind: "isIndividualPackaging (announce this st) = isIndividualPackaging st"
    by (simp add: isIndividualPackaging_def announce_def)
  obtain r1 st1 where c: "copy_pass this (isIndividualPackaging st) (announce this st) = (r1, st1)"
    by (cases "copy_pass this (isIndividualPackaging st) (announce this st)")
  have p1: "service_package st1 = service_package st"
    using copy_pass_frame [OF c] by (simp add: announce_def)
  show ?thesis
  proof (cases r1)
    case (Inl e)
    with run c ind p1 show ?thesis
      by (simp add: copyExistingArtifacts_def Let_def)
  next
    case (Inr v)
    obtain r2 st2 where a: "assignment_pass this (isIndividualPackaging st) st1 = (r2, st2)"
      by (cases "assignment_pass this (isIndividualPackaging st) st1")
    have p2: "service_package st2 = service_package st1"
      using forEach_assign_error_frame [OF a [unfolded assignment_pass_def]] by simp
    from run c ind Inr a other p1 p2 show ?thesis
      by (cases r2) (auto simp: copyExistingArtifacts_def Let_def)
  qed
qed

text \<open>
  Claim C6. When a run of \<^verbatim>\<open>copyExistingArtifacts\<close> completes for a service packaged
  as one unit and deployed to Google, \<^verbatim>\<open>service.package.artifact\<close> holds the
  deploy-stage path of the service name, and every function of the run is bound to
  that same path: the service-level binding comes on top of the per-function ones.
  For any other provider, and for individual packaging, the run leaves
  \<^verbatim>\<open>service.package\<close> as it was, however it ends.
\<close>

theorem google_service_artifact:
  "(copyExistingArtifacts this st = (Inr (), st')
      \<and> \<not> isIndividualPackaging st \<and> providerIsGoogle this \<longrightarrow>
        map_of (service_package st') ''artifact''
          = Some (JStr (snd (getArtifactLocations this (serviceName this))))
      \<and> (\<forall>f \<in> set (functionNames this).
            function_binding this st' f = Some (snd (getArtifactLocations this (serviceName this)))))
   \<and> (isIndividualPackaging st \<or> \<not> providerIsGoogle this \<longrightarrow>
        service_package (snd (copyExistingArtifacts this st)) = service_package st)"
proof (intro conjI impI)
  assume h: "copyExistingArtifacts this st = (Inr (), st')
      \<and> \<not> isIndividualPackaging st \<and> providerIsGoogle this"
  then have run: "copyExistingArtifacts this st = (Inr (), st')" by simp
  from run obtain st1 st2 where
    "copy_pass this (isIndividualPackaging st) (announce this st) = (Inr (), st1)"
    "assignment_pass this (isIndividualPackaging st) st1 = (Inr (), st2)"
    "st' = (if \<not> isIndividualPackaging st \<and> providerIsGoogle this
            then setServiceArtifactPath (snd (getArtifactLocations this (serviceName this))) st2
            else st2)"
    by (rule copyExistingArtifacts_ok)
  with h show "map_of (service_package st') ''artifact''
          = Some (JStr (snd (getArtifactLocations this (serviceName this))))"
    by (simp add: setServiceArtifactPath_def map_of_js_set)
  from h completed_run_bindings(1) [of this st "()" st']
  show "\<forall>f \<in> set (functionNames this).
            function_binding this st' f = Some (snd (getArtifactLocations this (serviceName this)))"
    by simp
next
  assume "isIndividualPackaging st \<or> \<not> providerIsGoogle this"
  then show "service_package (snd (copyExistingArtifacts this st)) = service_package st"
    using copyExistingArtifacts_service_package [OF surjective_pairing] by blast
qed

lemma run_google:
  "copyExistingArtifacts google_plugin unified_state
     = (Inr (), snd (copyExistingArtifacts google_plugin unified_state))"
proof -
  have "fst (copyExistingArtifacts google_plugin unified_state) = Inr ()" by code_simp
  then show ?thesis by (simp add: prod_eq_iff)
qed

theorem google_service_artifact_witness:
  "map_of (service_package (snd (copyExistingArtifacts google_plugin unified_state))) ''artifact''
     = Some (JStr ''.serverless/svc.zip'')
   \<and> function_binding google_plugin (snd (copyExistingArtifacts google_plugin unified_state)) ''f1''
     = Some ''.serverless/svc.zip''
   \<and> function_binding google_plugin (snd (copyExistingArtifacts google_plugin unified_state)) ''f2''
     = Some ''.serverless/svc.zip''
   \<and> service_package (snd (copyExistingArtifacts google_plugin individual_state))
     = [(''individually'', JBool True)]
   \<and> service_package (snd (copyExistingArtifacts modern_plugin unified_state)) = []"
proof -
  have svc: "snd (getArtifactLocations google_plugin (serviceName google_plugin)) = ''.serverless/svc.zip''"
    by (simp add: deploy_path google_plugin_def modern_plugin_def)
  have names: "functionNames google_plugin = [''f1'', ''f2'']"
    by (simp add: functionNames_def google_plugin_def modern_plugin_def)
  have g: "providerIsGoogle google_plugin" "\<not> providerIsGoogle modern_plugin"
    by (simp_all add: google_plugin_def modern_plugin_def)
  note t1 = google_service_artifact [of google_plugin unified_state
      "snd (copyExistingArtifacts google_plugin unified_state)"]
  note t2 = google_service_artifact [of google_plugin individual_state
      "snd (copyExistingArtifacts google_plugin individual_state)"]
  note t3 = google_service_artifact [of modern_plugin unified_state
      "snd (copyExistingArtifacts modern_plugin unified_state)"]
  from t1 run_google unified_state_mode g(1)
  have a: "map_of (service_package (snd (copyExistingArtifacts google_plugin unified_state))) ''artifact''
     = Some (JStr ''.serverless/svc.zip'')"
    and b: "\<forall>f \<in> set (functionNames google_plugin).
       function_binding google_plugin (snd (copyExistingArtifacts google_plugin unified_state)) f
         = Some ''.serverless/svc.zip''"
    by (simp_all add: svc)
  from t2 individual_state_mode
  have c: "service_package (snd (copyExistingArtifacts google_plugin individual_state))
     = [(''individually'', JBool True)]"
    by (simp add: individual_state_def)
  from t3 g(2)
  have d: "service_package (snd (copyExistingArtifacts modern_plugin unified_state)) = []"
    by (simp add: unified_state_def)
  from a b c d show ?thesis by (simp add: names)
qed


section \<open>The assignment pass\<close>

lemma copyExistingArtifacts_copy_failed:
  assumes "fst (copy_pass this (isIndividualPackaging st) (announce this st)) = Inl e"
  shows "fst (copyExistingArtifacts this st) = Inl e"
    and "service_functions (snd (copyExistingArtifacts this st)) = service_functions st"
proof -
  have ind: "isIndividualPackaging (announce this st) = isIndividualPackaging st"
    by (simp add: isIndividualPackaging_def announce_def)
  obtain st1 where c: "copy_pass this (isIndividualPackaging st) (announce this st) = (Inl e, st1)"
    using assms by (cases "copy_pass this (isIndividualPackaging st) (announce this st)") auto
  then have run: "copyExistingArtifacts this st = (Inl e, st1)"
    by (simp add: copyExistingArtifacts_def Let_def ind)
  show "fst (copyExistingArtifacts this st) = Inl e" by (simp add: run)
  show "service_functions (snd (copyExistingArtifacts this st)) = service_functions st"
    using copy_pass_frame [OF c] by (simp add: run announce_def)
qed

lemma completed_run_independent:
  assumes "copyExistingArtifacts this st = (Inr u, st')"
  shows "service_functions st' = service_functions (snd (assignment_pass this (isIndividualPackaging st) st))"
proof -
  from assms obtain st1 st2 where
    c: "copy_pass this (isIndividualPackaging st) (announce this st) = (Inr (), st1)" and
    a: "assignment_pass this (isIndividualPackaging st) st1 = (Inr (), st2)" and
    e: "st' = (if \<not> isIndividualPackaging st \<and> providerIsGoogle this
            then setServiceArtifactPath (snd (getArtifactLocations this (serviceName this))) st2
            else st2)"
    by (rule copyExistingArtifacts_ok)
  have sf: "service_functions st' = service_functions st2"
    by (simp add: e setServiceArtifactPath_def)
  have s1: "service_functions st1 = service_functions st"
    using copy_pass_frame [OF c] by (simp add: announce_def)
  obtain r b' where b: "assignment_pass this (isIndividualPackaging st) st = (r, b')"
    by (cases "assignment_pass this (isIndividualPackaging st) st")
  from forEach_assign_independent [OF s1 a [unfolded assignment_pass_def] b [unfolded assignment_pass_def]]
  have "service_functions st2 = service_functions b'" by simp
  with sf b show ?thesis by simp
qed

text \<open>
  Claim C7, as the code has it. The functions of a run are \<^verbatim>\<open>functionNames\<close>: the
  function selected with \<^verbatim>\<open>-f\<close> when there is one, all functions otherwise; both
  passes loop over them. After a run that completed, each of these functions has its
  one binding, the deploy-stage path of its archive name, and the record of every
  other function is what it was. The records are those the assignment pass yields
  when run on the initial state directly, whatever the copy pass did to the files.
  The assignment pass comes after the copy pass: when the copy pass throws, the run
  ends with that error and no function record has changed.
\<close>

theorem assignment_covers_processed_functions:
  "(copyExistingArtifacts this st = (Inr (), st') \<longrightarrow>
      (\<forall>f \<in> set (functionNames this).
         function_binding this st' f
           = Some (snd (getArtifactLocations this
                          (if isIndividualPackaging st then f else serviceName this))))
    \<and> (\<forall>g. g \<notin> set (functionNames this) \<longrightarrow> service_functions st' g = service_functions st g)
    \<and> service_functions st'
        = service_functions (snd (assignment_pass this (isIndividualPackaging st) st)))
   \<and> (fst (copy_pass this (isIndividualPackaging st) (announce this st)) = Inl e \<longrightarrow>
        fst (copyExistingArtifacts this st) = Inl e
      \<and> service_functions (snd (copyExistingArtifacts this st)) = service_functions st)"
  using completed_run_bindings [of this st "()" st'] completed_run_independent [of this st "()" st']
    copyExistingArtifacts_copy_failed [of this st e]
  by blast

lemma run_selected:
  "copyExistingArtifacts selected_plugin individual_state
     = (Inr (), snd (copyExistingArtifacts selected_plugin individual_state))"
proof -
  have "fst (copyExistingArtifacts selected_plugin individual_state) = Inr ()" by code_simp
  then show ?thesis by (simp add: prod_eq_iff)
qed

lemma functionNames_selected: "functionNames selected_plugin = [''f1'']"
  by (simp add: functionNames_def selected_plugin_def modern_plugin_def)

theorem assignment_covers_processed_functions_witness:
  "function_binding selected_plugin (snd (copyExistingArtifacts selected_plugin individual_state)) ''f1''
     = Some ''.serverless/f1.zip''
   \<and> service_functions (snd (copyExistingArtifacts selected_plugin individual_state)) ''f2''
     = Some plain_func
   \<and> fst (copyExistingArtifacts modern_plugin unbuilt_state) = Inl (ENOENT ''.webpack/f1.zip'')
   \<and> service_functions (snd (copyExistingArtifacts modern_plugin unbuilt_state)) ''f1''
     = Some plain_func"
proof -
  note t1 = assignment_covers_processed_functions [of selected_plugin individual_state
      "snd (copyExistingArtifacts selected_plugin individual_state)" "ENOENT ''.webpack/f1.zip''"]
  note t2 = assignment_covers_processed_functions [of modern_plugin unbuilt_state
      "snd (copyExistingArtifacts modern_plugin unbuilt_state)" "ENOENT ''.webpack/f1.zip''"]
  have own: "snd (getArtifactLocations selected_plugin ''f1'') = ''.serverless/f1.zip''"
    by (simp add: deploy_path)
  from t1 run_selected individual_state_mode
  have a0: "\<forall>f \<in> set (functionNames selected_plugin).
       function_binding selected_plugin (snd (copyExistingArtifacts selected_plugin individual_state)) f
         = Some (snd (getArtifactLocations selected_plugin
                        (if isIndividualPackaging individual_state then f else serviceName selected_plugin)))"
    and b: "\<forall>g. g \<notin> set (functionNames selected_plugin) \<longrightarrow>
       service_functions (snd (copyExistingArtifacts selected_plugin individual_state)) g
         = service_functions individual_state g"
    by blast+
  from a0 individual_state_mode
  have a: "function_binding selected_plugin (snd (copyExistingArtifacts selected_plugin individual_state)) ''f1''
     = Some ''.serverless/f1.zip''"
    by (simp add: functionNames_selected own)
  from b have b': "service_functions (snd (copyExistingArtifacts selected_plugin individual_state)) ''f2''
     = Some plain_func"
    by (simp add: functionNames_selected individual_state_def unified_state_def)
  have fails: "fst (copy_pass modern_plugin (isIndividualPackaging unbuilt_state)
      (announce modern_plugin unbuilt_state)) = Inl (ENOENT ''.webpack/f1.zip'')"
    by code_simp
  from t2 fails
  have c: "fst (copyExistingArtifacts modern_plugin unbuilt_state) = Inl (ENOENT ''.webpack/f1.zip'')"
    and d: "service_functions (snd (copyExistingArtifacts modern_plugin unbuilt_state))
       = service_functions unbuilt_state"
    by blast+
  from d have d': "service_functions (snd (copyExistingArtifacts modern_plugin unbuilt_state)) ''f1''
     = Some plain_func"
    by (simp add: unbuilt_state_def individual_state_def unified_state_def)
  from a b' c d' show ?thesis by simp
qed

text \<open>
  With \<^verbatim>\<open>-f f1\<close> on a service of two individually packaged functions, the run
  completes and \<^verbatim>\<open>f2\<close> is left without a binding.
\<close>

theorem selected_function_only:
  "allNodeFunctions selected_plugin = [''f1'', ''f2'']
   \<and> isIndividualPackaging individual_state
   \<and> service_functions individual_state ''f2'' = Some plain_func
   \<and> fst (copyExistingArtifacts selected_plugin individual_state) = Inr ()
   \<and> function_binding selected_plugin (snd (copyExistingArtifacts selected_plugin individual_state)) ''f2''
       = None"
proof -
  have "allNodeFunctions selected_plugin = [''f1'', ''f2'']"
    by (simp add: selected_plugin_def modern_plugin_def)
  moreover have "service_functions individual_state ''f2'' = Some plain_func"
    by (simp add: individual_state_def unified_state_def)
  moreover have "fst (copyExistingArtifacts selected_plugin individual_state) = Inr ()"
    by code_simp
  moreover have "function_binding selected_plugin
      (snd (copyExistingArtifacts selected_plugin individual_state)) ''f2'' = None"
    by code_simp
  ultimately show ?thesis using individual_state_mode by simp
qed

section \<open>The version gate\<close>

text \<open>
  Claim C5, as the code has it. Below 1.18.0 the function record receives the flat
  artifact path and a package object with the disable flag; the notice that the
  function is packaged by the plugin is printed when the legacy logger is in use, and
  not with the modern logger, which prints the verbose line only. From 1.18.0 on the
  record receives the nested artifact descriptor. In both shapes the binding a host
  of that version reads is the path that was passed in.
\<close>

theorem setArtifactPath_version_gate:
  assumes "setArtifactPath this funcName fn artifactPath out = (fn', out')"
  shows "(semver_lt (version this) v1_18_0 \<longrightarrow>
            artifact fn' = Some artifactPath
          \<and> (\<exists>p'. package fn' = Some p' \<and> map_of p' ''disable'' = Some (JBool True))
          \<and> (\<not> log this \<longrightarrow>
               out' = log_verbose this (setting_artifact_message funcName artifactPath) out
                        @ [CliLog (packaged_notice funcName)])
          \<and> (log this \<longrightarrow>
               out' = out @ [LogVerbose (setting_artifact_message funcName artifactPath)]))
       \<and> (\<not> semver_lt (version this) v1_18_0 \<longrightarrow>
            package fn' = Some [(''artifact'', JStr artifactPath)]
          \<and> out' = log_verbose this (setting_artifact_message funcName artifactPath) out)
       \<and> artifact_binding this fn' = Some artifactPath"
  using assms setArtifactPath_binding [of this funcName fn artifactPath out]
  by (auto simp: setArtifactPath_def Let_def map_of_js_assign_disable log_verbose_def
           split: if_splits)

theorem setArtifactPath_version_gate_witness:
  "artifact (fst (setArtifactPath legacy_plugin ''f1'' plain_func ''.serverless/f1.zip'' []))
     = Some ''.serverless/f1.zip''
   \<and> snd (setArtifactPath legacy_plugin ''f1'' plain_func ''.serverless/f1.zip'' [])
     = [CliLog ''f1 is packaged by the webpack plugin. Ignore messages from SLS.'']
   \<and> package (fst (setArtifactPath modern_plugin ''f1'' plain_func ''.serverless/f1.zip'' []))
     = Some [(''artifact'', JStr ''.serverless/f1.zip'')]
   \<and> artifact_binding legacy_plugin (fst (setArtifactPath legacy_plugin ''f1'' plain_func ''.serverless/f1.zip'' []))
     = artifact_binding modern_plugin (fst (setArtifactPath modern_plugin ''f1'' plain_func ''.serverless/f1.zip'' []))"
proof -
  note old = setArtifactPath_version_gate [OF surjective_pairing, of legacy_plugin "''f1''" plain_func
      "''.serverless/f1.zip''" "[]"]
  note new = setArtifactPath_version_gate [OF surjective_pairing, of modern_plugin "''f1''" plain_func
      "''.serverless/f1.zip''" "[]"]
  have quiet: "\<not> log legacy_plugin" "\<not> verbose legacy_plugin"
    by (simp_all add: legacy_plugin_def)
  from old legacy_below_threshold quiet
  have a: "artifact (fst (setArtifactPath legacy_plugin ''f1'' plain_func ''.serverless/f1.zip'' []))
     = Some ''.serverless/f1.zip''"
    and b: "snd (setArtifactPath legacy_plugin ''f1'' plain_func ''.serverless/f1.zip'' [])
     = [CliLog ''f1 is packaged by the webpack plugin. Ignore messages from SLS.'']"
    by (simp_all add: log_verbose_def packaged_notice_def)
  from new modern_not_below_threshold
  have c: "package (fst (setArtifactPath modern_plugin ''f1'' plain_func ''.serverless/f1.zip'' []))
     = Some [(''artifact'', JStr ''.serverless/f1.zip'')]"
    by simp
  from old new have d: "artifact_binding legacy_plugin (fst (setArtifactPath legacy_plugin ''f1'' plain_func ''.serverless/f1.zip'' []))
     = artifact_binding modern_plugin (fst (setArtifactPath modern_plugin ''f1'' plain_func ''.serverless/f1.zip'' []))"
    by simp
  from a b c d show ?thesis by simp
qed

text \<open>
  An old host with the modern logger: the version is below the threshold and the
  only line printed is the verbose one.
\<close>

theorem no_notice_with_modern_logger:
  "semver_lt (version old_host_modern_logger) v1_18_0
   \<and> snd (setArtifactPath old_host_modern_logger ''f1'' plain_func ''.serverless/f1.zip'' [])
       = [LogVerbose (setting_artifact_message ''f1'' ''.serverless/f1.zip'')]"
  by (simp add: old_host_modern_logger_def legacy_plugin_def v1_17_0_def v1_18_0_def semver_lt_def
      semver_compare_def compareMain_def compareNat_def comparePre_def setArtifactPath_def
      log_verbose_def Let_def)

section \<open>Facts about enumeration and exclusion\<close>

lemma map_of_filter_key:
  "map_of (filter (\<lambda>(q, c). Q q) fs) p = (if Q p then map_of fs p else None)"
  by (induction fs) auto

lemma remove_file_absent: "map_of fs p = None \<Longrightarrow> remove_file p fs = fs"
  by (induction fs) (auto simp: remove_file_def split: if_splits)

lemma map_of_remove_file: "map_of (remove_file p fs) q = (if q = p then None else map_of fs q)"
  unfolding remove_file_def by (simp add: map_of_filter_key)

lemma unlink_if_exists:
  "\<not> is_directory st p \<Longrightarrow>
   (if existsSync st p then unlinkSync p st else (Inr (), st))
     = (Inr (), st\<lparr>files := remove_file p (files st)\<rparr>)"
  by (simp add: existsSync_def unlinkSync_def remove_file_absent)

lemma filter_remove_file:
  "filter (\<lambda>(q, c). q \<notin> S) (remove_file p fs) = filter (\<lambda>(q, c). q \<notin> insert p S) fs"
  by (induction fs) (auto simp: remove_file_def)

text \<open>The loop never fails as long as no name that matches is the name of a directory.\<close>

lemma exclude_loop_result:
  assumes "\<forall>f \<in> set (drop i fl). m f \<longrightarrow> \<not> is_directory st (path_join d f)"
  shows "exclude_loop m d fl i n st =
     (Inr (take i fl @ filter (\<lambda>f. \<not> m f) (drop i fl), n + length (filter m (drop i fl))),
      st\<lparr>files := filter (\<lambda>(q, c). q \<notin> path_join d ` set (filter m (drop i fl))) (files st)\<rparr>)"
  using assms
proof (induction m d fl i n st rule: exclude_loop.induct)
  case (1 m d fl i n st)
  show ?case
  proof (cases "i < length fl")
    case False
    then show ?thesis
      by (subst exclude_loop.simps) simp
  next
    case True
    then have dr: "drop i fl = fl ! i # drop (Suc i) fl"
      by (simp add: Cons_nth_drop_Suc)
    show ?thesis
    proof (cases "m (fl ! i)")
      case False
      from "1.prems" dr
      have rest: "\<forall>f \<in> set (drop (Suc i) fl). m f \<longrightarrow> \<not> is_directory st (path_join d f)"
        by simp
      from "1.IH"(2) [OF True refl False rest]
      have ih: "exclude_loop m d fl (Suc i) n st =
        (Inr (take (Suc i) fl @ filter (\<lambda>f. \<not> m f) (drop (Suc i) fl),
              n + length (filter m (drop (Suc i) fl))),
         st\<lparr>files := filter (\<lambda>(q, c). q \<notin> path_join d ` set (filter m (drop (Suc i) fl))) (files st)\<rparr>)" .
      show ?thesis
        using True False
        by (subst exclude_loop.simps) (simp add: ih dr take_Suc_conv_app_nth)
    next
      case m: True
      let ?sp = "take i fl @ drop (Suc i) fl"
      let ?st' = "st\<lparr>files := remove_file (path_join d (fl ! i)) (files st)\<rparr>"
      from "1.prems" dr m have nd: "\<not> is_directory st (path_join d (fl ! i))"
        by simp
      have u: "(if existsSync st (path_join d (fl ! i)) then unlinkSync (path_join d (fl ! i)) st
                else (Inr (), st)) = (Inr (), ?st')"
        by (rule unlink_if_exists [OF nd])
      have tk: "take i ?sp = take i fl" and dp: "drop i ?sp = drop (Suc i) fl"
        using True by simp_all
      from "1.prems" dr
      have rest: "\<forall>f \<in> set (drop i ?sp). m f \<longrightarrow> \<not> is_directory ?st' (path_join d f)"
        unfolding dp by (simp add: is_directory_def map_of_remove_file)
      from "1.IH"(1) [OF True refl m refl refl u [symmetric] refl rest]
      have ih: "exclude_loop m d ?sp i (Suc n) ?st' =
        (Inr (take i ?sp @ filter (\<lambda>f. \<not> m f) (drop i ?sp), Suc n + length (filter m (drop i ?sp))),
         ?st'\<lparr>files := filter (\<lambda>(q, c). q \<notin> path_join d ` set (filter m (drop i ?sp))) (files ?st')\<rparr>)" .
      show ?thesis
        using True m
        by (subst exclude_loop.simps) (simp add: Let_def u ih tk dp dr filter_remove_file)
    qed
  qed
qed

lemma walk_under: "walk st d = concat (map (under d) (map fst (files st)))"
  by (simp add: walk_def map_concat comp_def case_prod_unfold)

lemma walk_member:
  "r \<in> set (walk st d) \<longleftrightarrow> relative_path r \<and> path_join d r \<in> fst ` set (files st)"
proof
  assume "r \<in> set (walk st d)"
  then show "relative_path r \<and> path_join d r \<in> fst ` set (files st)"
    by (auto simp: walk_under under_def)
next
  assume h: "relative_path r \<and> path_join d r \<in> fst ` set (files st)"
  then have "suffix r (path_join d r)"
    by (simp add: path_join_relative suffix_def)
  with h show "r \<in> set (walk st d)"
    by (force simp: walk_under under_def)
qed

lemma glob_sync_member:
  "r \<in> set (glob_sync st d) \<longleftrightarrow>
     relative_path r \<and> path_join d r \<in> fst ` set (files st) \<and> \<not> is_directory st (path_join d r)"
  by (auto simp: glob_sync_def walk_member)

lemma under_excluded:
  assumes "\<forall>x \<in> X. relative_path x"
  shows "filter (\<lambda>r. r \<notin> X) (under d p) = (if p \<in> path_join d ` X then [] else under d p)"
proof (cases "p \<in> path_join d ` X")
  case True
  then obtain x where x: "x \<in> X" "p = path_join d x" by blast
  have "\<forall>r \<in> set (under d p). r \<in> X"
  proof
    fix r assume "r \<in> set (under d p)"
    then have "relative_path r" "path_join d r = path_join d x"
      by (auto simp: under_def x(2))
    with assms x(1) have "r = x" by (auto dest: path_join_inject)
    with x(1) show "r \<in> X" by simp
  qed
  with True show ?thesis by (simp add: filter_empty_conv)
next
  case False
  have "\<forall>r \<in> set (under d p). r \<notin> X"
  proof
    fix r assume "r \<in> set (under d p)"
    then have "path_join d r = p" by (simp add: under_def)
    with False show "r \<notin> X" by blast
  qed
  with False show ?thesis by (simp add: filter_id_conv)
qed

lemma walk_after_delete:
  assumes "\<forall>x \<in> X. relative_path x"
  shows "walk (st\<lparr>files := filter (\<lambda>(q, c). q \<notin> path_join d ` X) (files st)\<rparr>) d
           = filter (\<lambda>r. r \<notin> X) (walk st d)"
proof -
  have "concat (map (under d) (map fst (filter (\<lambda>(q, c). q \<notin> path_join d ` X) fs)))
          = filter (\<lambda>r. r \<notin> X) (concat (map (under d) (map fst fs)))" for fs :: "(string \<times> content) list"
    by (induction fs) (auto simp: under_excluded [OF assms])
  then show ?thesis by (simp add: walk_under)
qed

lemma lookup_after_delete:
  assumes "\<forall>x \<in> X. relative_path x" and "relative_path r" and "r \<notin> X"
  shows "map_of (filter (\<lambda>(q, c). q \<notin> path_join d ` X) fs) (path_join d r) = map_of fs (path_join d r)"
proof -
  have "path_join d r \<notin> path_join d ` X"
  proof
    assume "path_join d r \<in> path_join d ` X"
    then obtain x where x: "x \<in> X" "path_join d r = path_join d x" by blast
    with assms(1,2) have "r = x" by (auto dest: path_join_inject)
    with x(1) assms(3) show False by simp
  qed
  then show ?thesis by (simp add: map_of_filter_key)
qed

lemma glob_after_delete:
  assumes "\<forall>x \<in> X. relative_path x"
  shows "glob_sync (st\<lparr>files := filter (\<lambda>(q, c). q \<notin> path_join d ` X) (files st)\<rparr>) d
           = filter (\<lambda>r. r \<notin> X) (glob_sync st d)"
proof -
  let ?st' = "st\<lparr>files := filter (\<lambda>(q, c). q \<notin> path_join d ` X) (files st)\<rparr>"
  have "filter (\<lambda>r. \<not> is_directory ?st' (path_join d r)) (filter (\<lambda>r. r \<notin> X) (walk st d))
          = filter (\<lambda>r. \<not> is_directory st (path_join d r)) (filter (\<lambda>r. r \<notin> X) (walk st d))"
  proof (rule filter_cong [OF refl])
    fix r assume "r \<in> set (filter (\<lambda>r. r \<notin> X) (walk st d))"
    then have "relative_path r" "r \<notin> X" by (simp_all add: walk_member)
    from lookup_after_delete [OF assms this, of d "files st"]
    have "map_of (files ?st') (path_join d r) = map_of (files st) (path_join d r)"
      by simp
    then show "(\<not> is_directory ?st' (path_join d r)) = (\<not> is_directory st (path_join d r))"
      by (simp only: is_directory_def)
  qed
  then show ?thesis
    by (simp add: glob_sync_def walk_after_delete [OF assms] conj_commute)
qed

lemma glob_after_exclusion:
  "glob_sync (st\<lparr>files := filter (\<lambda>(q, c). q \<notin> path_join d ` set (filter m (glob_sync st d))) (files st)\<rparr>) d
     = filter (\<lambda>f. \<not> m f) (glob_sync st d)"
proof -
  have rel: "\<forall>x \<in> set (filter m (glob_sync st d)). relative_path x"
    by (simp add: glob_sync_member)
  have "filter (\<lambda>r. r \<notin> set (filter m (glob_sync st d))) (glob_sync st d)
          = filter (\<lambda>f. \<not> m f) (glob_sync st d)"
    by (rule filter_cong) auto
  with glob_after_delete [OF rel, where st = st and d = d] show ?thesis by simp
qed

lemma glob_sync_cong: "files a = files b \<Longrightarrow> glob_sync a d = glob_sync b d"
  by (simp add: glob_sync_def walk_def is_directory_def)

lemma walk_cong: "files a = files b \<Longrightarrow> walk a d = walk b d"
  by (simp add: walk_def)

lemma glob_excluded_deleted:
  "files st' = excluded_deleted m d st \<Longrightarrow>
   glob_sync st' d = filter (\<lambda>f. \<not> m f) (glob_sync st d)"
proof -
  assume f: "files st' = excluded_deleted m d st"
  have "glob_sync st' d = glob_sync (st\<lparr>files := excluded_deleted m d st\<rparr>) d"
    by (rule glob_sync_cong) (simp add: f)
  also have "\<dots> = filter (\<lambda>f. \<not> m f) (glob_sync st d)"
    unfolding excluded_deleted_def by (rule glob_after_exclusion)
  finally show ?thesis .
qed

lemma list_files_None:
  "excludeRegex this = None \<Longrightarrow> list_files this d st = (Inr (glob_sync st d), st)"
  by (simp add: list_files_def exclude_files_def)

lemma list_files_Some:
  assumes "excludeRegex this = Some m"
  shows "list_files this d st =
     (Inr (filter (\<lambda>f. \<not> m f) (glob_sync st d)),
      st\<lparr>files := excluded_deleted m d st,
         printed := log_verbose this
           (''Excluded '' @ show_nat (length (filter m (glob_sync st d))) @ '' file(s) based on excludeRegex'')
           (printed st)\<rparr>)"
proof -
  have "\<forall>f \<in> set (drop 0 (glob_sync st d)). m f \<longrightarrow> \<not> is_directory st (path_join d f)"
    by (simp add: glob_sync_def)
  from exclude_loop_result [OF this, of 0] assms show ?thesis
    by (simp add: list_files_def exclude_files_def excluded_deleted_def)
qed

lemma list_files_glob:
  "list_files this d st = (r, st') \<Longrightarrow> r = Inr (glob_sync st' d)"
proof (cases "excludeRegex this")
  case None
  then show "list_files this d st = (r, st') \<Longrightarrow> r = Inr (glob_sync st' d)"
    by (auto simp: list_files_None)
next
  case (Some m)
  assume "list_files this d st = (r, st')"
  with Some have r: "r = Inr (filter (\<lambda>f. \<not> m f) (glob_sync st d))"
    and f: "files st' = excluded_deleted m d st"
    by (auto simp: list_files_Some)
  from r glob_excluded_deleted [OF f] show "r = Inr (glob_sync st' d)"
    by simp
qed

lemma excluded_deleted_fixpoint:
  assumes "files st' = excluded_deleted m d st"
  shows "excluded_deleted m d st' = files st'"
proof -
  have "glob_sync st' d = filter (\<lambda>f. \<not> m f) (glob_sync st d)"
    by (rule glob_excluded_deleted [OF assms])
  then have "filter m (glob_sync st' d) = []"
    by (simp add: filter_empty_conv)
  then show ?thesis by (simp add: excluded_deleted_def)
qed

lemma list_files_twice:
  "fst (list_files this d (snd (list_files this d st))) = fst (list_files this d st)"
  "files (snd (list_files this d (snd (list_files this d st)))) = files (snd (list_files this d st))"
proof -
  obtain r st' where one: "list_files this d st = (r, st')"
    by (cases "list_files this d st")
  obtain r2 st2 where two: "list_files this d st' = (r2, st2)"
    by (cases "list_files this d st'")
  have f2: "files st2 = files st'"
  proof (cases "excludeRegex this")
    case None
    with two show ?thesis by (simp add: list_files_None)
  next
    case (Some m)
    with one have "files st' = excluded_deleted m d st" by (auto simp: list_files_Some)
    from excluded_deleted_fixpoint [OF this] two Some show ?thesis
      by (auto simp: list_files_Some)
  qed
  from list_files_glob [OF one] list_files_glob [OF two] glob_sync_cong [OF f2]
  have "r2 = r" by simp
  with one two f2 show
    "fst (list_files this d (snd (list_files this d st))) = fst (list_files this d st)"
    "files (snd (list_files this d (snd (list_files this d st)))) = files (snd (list_files this d st))"
    by simp_all
qed

lemma second_pass_no_error:
  assumes "excludeRegex this = Some m"
  shows "exclude_loop m d (glob_sync st d) 0 0 (snd (list_files this d st))
           = (Inr (filter (\<lambda>f. \<not> m f) (glob_sync st d), length (filter m (glob_sync st d))),
              snd (list_files this d st))"
proof -
  let ?st' = "snd (list_files this d st)"
  have f: "files ?st' = excluded_deleted m d st"
    by (simp add: list_files_Some [OF assms])
  have same: "filter (\<lambda>(q, c). q \<notin> path_join d ` set (filter m (glob_sync st d))) (files ?st') = files ?st'"
    by (simp add: f excluded_deleted_def)
  have "\<forall>f \<in> set (drop 0 (glob_sync st d)). m f \<longrightarrow> \<not> is_directory ?st' (path_join d f)"
    by (auto simp: glob_sync_def is_directory_def f excluded_deleted_def map_of_filter_key)
  from exclude_loop_result [OF this, of 0] same show ?thesis
    by simp
qed

section \<open>Facts about files and the archive stream\<close>

lemma map_of_replace:
  "map_of (map (\<lambda>(q, d). if q = p then (q, c) else (q, d)) fs) k
     = (if k = p then map_option (\<lambda>d. c) (map_of fs p) else map_of fs k)"
  by (induction fs) (auto simp: case_prod_unfold)

lemma map_of_write_file: "map_of (write_file p c fs) = (map_of fs)(p \<mapsto> c)"
proof (cases "p \<in> fst ` set fs")
  case True
  then obtain d where "map_of fs p = Some d"
    by (metis map_of_eq_None_iff not_Some_eq)
  with True show ?thesis
    by (simp add: write_file_def fun_eq_iff map_of_replace)
next
  case False
  then have "map_of fs p = None" by (simp add: map_of_eq_None_iff)
  with False show ?thesis
    by (auto simp: write_file_def fun_eq_iff map_add_def split: option.splits)
qed

lemma keys_write_file:
  "map fst (write_file p c fs) = (if p \<in> fst ` set fs then map fst fs else map fst fs @ [p])"
  by (simp add: write_file_def case_prod_unfold)

lemma list_files_only_deletes:
  "map_of (files (snd (list_files this d st))) p = Some c \<Longrightarrow> map_of (files st) p = Some c"
proof (cases "excludeRegex this")
  case None
  then show "map_of (files (snd (list_files this d st))) p = Some c \<Longrightarrow> map_of (files st) p = Some c"
    by (simp add: list_files_None)
next
  case (Some m)
  assume "map_of (files (snd (list_files this d st))) p = Some c"
  with Some show "map_of (files st) p = Some c"
    by (simp add: list_files_Some excluded_deleted_def map_of_filter_key split: if_splits)
qed

text \<open>What a walk of the directory meets once the files are listed, and what it finds there.\<close>

lemma list_files_walk_Some:
  assumes "excludeRegex this = Some m"
  shows "walk (snd (list_files this d st)) d
           = filter (\<lambda>r. r \<notin> set (filter m (glob_sync st d))) (walk st d)"
proof -
  have rel: "\<forall>x \<in> set (filter m (glob_sync st d)). relative_path x"
    by (simp add: glob_sync_member)
  have "walk (snd (list_files this d st)) d = walk (st\<lparr>files := excluded_deleted m d st\<rparr>) d"
    by (rule walk_cong) (simp add: list_files_Some [OF assms])
  also have "\<dots> = filter (\<lambda>r. r \<notin> set (filter m (glob_sync st d))) (walk st d)"
    unfolding excluded_deleted_def by (rule walk_after_delete [OF rel])
  finally show ?thesis .
qed

lemma list_files_walk:
  "walk (snd (list_files this d st)) d
     = filter (\<lambda>r. is_directory st (path_join d r) \<or> \<not> excluded this r) (walk st d)"
proof (cases "excludeRegex this")
  case None
  then show ?thesis by (simp add: list_files_None excluded_def)
next
  case (Some m)
  have "filter (\<lambda>r. r \<notin> set (filter m (glob_sync st d))) (walk st d)
          = filter (\<lambda>r. is_directory st (path_join d r) \<or> \<not> excluded this r) (walk st d)"
    by (rule filter_cong) (auto simp: glob_sync_def excluded_def Some)
  with list_files_walk_Some [OF Some] show ?thesis by simp
qed

lemma list_files_lookup:
  assumes "r \<in> set (walk (snd (list_files this d st)) d)"
  shows "map_of (files (snd (list_files this d st))) (path_join d r) = map_of (files st) (path_join d r)"
proof (cases "excludeRegex this")
  case None
  then show ?thesis by (simp add: list_files_None)
next
  case (Some m)
  have rel: "\<forall>x \<in> set (filter m (glob_sync st d)). relative_path x"
    by (simp add: glob_sync_member)
  from assms have r: "relative_path r" "r \<notin> set (filter m (glob_sync st d))"
    by (simp_all add: list_files_walk_Some [OF Some] walk_member)
  from lookup_after_delete [OF rel r] show ?thesis
    by (simp add: list_files_Some [OF Some] excluded_deleted_def)
qed

lemma entry_at_cong:
  "map_of (files a) (path_join d r) = map_of (files b) (path_join d r) \<Longrightarrow> entry_at a d r = entry_at b d r"
  by (simp add: entry_at_def)

text \<open>A stream that ends without an error has stored every path of the walk.\<close>

lemma archive_entries_ok:
  "archive_entries st d rs = (Inr u, es) \<Longrightarrow>
   map (entry_at st d) rs = map Some es
   \<and> (\<forall>r \<in> set rs. \<not> is_directory st (path_join d r) \<longrightarrow> path_join d r \<notin> set (unreadable st))"
proof (induction rs arbitrary: es)
  case Nil
  then show ?case by simp
next
  case (Cons r rs)
  from Cons.prems obtain c where c: "map_of (files st) (path_join d r) = Some c"
    by (auto simp: Let_def split: option.splits)
  obtain res es' where rest: "archive_entries st d rs = (res, es')"
    by (cases "archive_entries st d rs")
  show ?case
  proof (cases "c = Directory")
    case True
    with Cons.prems c rest have "res = Inr u" "es = (r @ ''/'', Directory) # es'"
      by (auto simp: Let_def)
    with Cons.IH [of es'] rest c True show ?thesis
      by (simp add: entry_at_def is_directory_def)
  next
    case False
    with Cons.prems c have nr: "path_join d r \<notin> set (unreadable st)"
      by (auto simp: Let_def split: if_splits)
    with Cons.prems c rest False have "res = Inr u" "es = (r, c) # es'"
      by (auto simp: Let_def)
    with Cons.IH [of es'] rest c False nr show ?thesis
      by (simp add: entry_at_def is_directory_def)
  qed
qed

text \<open>The file entries of an archive, read off the walk it stores.\<close>

lemma file_entries:
  "map (entry_at st d) rs = map Some es \<Longrightarrow>
   map fst (filter (\<lambda>(r, c). c \<noteq> Directory) es) = filter (\<lambda>r. \<not> is_directory st (path_join d r)) rs"
proof (induction rs arbitrary: es)
  case Nil
  then show ?case by simp
next
  case (Cons r rs)
  from Cons.prems obtain e es' where es: "es = e # es'" "entry_at st d r = Some e"
    "map (entry_at st d) rs = map Some es'"
    by (cases es) auto
  from es(2) obtain c where c: "map_of (files st) (path_join d r) = Some c"
    "e = (if c = Directory then (r @ ''/'', Directory) else (r, c))"
    by (auto simp: entry_at_def)
  from Cons.IH [OF es(3)] es(1) c show ?case
    by (simp add: is_directory_def)
qed

lemma file_entry_content:
  assumes "map (entry_at st d) rs = map Some es" and "(r, c) \<in> set es" and "c \<noteq> Directory"
  shows "r \<in> set rs \<and> map_of (files st) (path_join d r) = Some c"
proof -
  from assms(2) have "Some (r, c) \<in> set (map Some es)" by simp
  with assms(1) have "Some (r, c) \<in> set (map (entry_at st d) rs)" by simp
  then obtain x where x: "x \<in> set rs" "entry_at st d x = Some (r, c)" by auto
  from x(2) assms(3) have "x = r" "map_of (files st) (path_join d x) = Some c"
    by (auto simp: entry_at_def split: if_splits)
  with x(1) show ?thesis by simp
qed

text \<open>The outcomes of \<^verbatim>\<open>serverlessZip\<close>.\<close>

lemma serverlessZip_ok:
  assumes "serverlessZip this a d fl st = (Inr p, st')"
  obtains es where "p = a" "can_open st a"
    "archive_entries (st\<lparr>files := write_file a (Zip [] False) (files st)\<rparr>) d
       (walk (st\<lparr>files := write_file a (Zip [] False) (files st)\<rparr>) d) = (Inr (), es)"
    "files st' = write_file a (Zip es True) (write_file a (Zip [] False) (files st))"
proof -
  obtain opened st1 where c: "createWriteStream a st = (opened, st1)"
    by (cases "createWriteStream a st")
  obtain r2 es where ae: "archive_entries st1 d (walk st1 d) = (r2, es)"
    by (cases "archive_entries st1 d (walk st1 d)")
  from assms c ae obtain v where r2: "r2 = Inr v"
    by (cases r2) (auto simp: serverlessZip_def Let_def)
  from assms c ae r2 have o: "opened"
    by (auto simp: serverlessZip_def Let_def split: if_splits)
  with c have w: "can_open st a"
    and st1: "st1 = st\<lparr>files := write_file a (Zip [] False) (files st)\<rparr>"
    by (auto simp: createWriteStream_def split: if_splits)
  from assms c ae r2 o have "p = a" "files st' = write_file a (Zip es True) (files st1)"
    by (auto simp: serverlessZip_def Let_def)
  with w st1 ae r2 that show thesis by simp
qed

lemma serverlessZip_failure:
  assumes "fst (serverlessZip this a d fl st) = Inl e"
  shows "e = NeverSettles \<or> (\<exists>x. e = Uncaught x)"
proof -
  obtain opened st1 where c: "createWriteStream a st = (opened, st1)"
    by (cases "createWriteStream a st")
  obtain r2 es where ae: "archive_entries st1 d (walk st1 d) = (r2, es)"
    by (cases "archive_entries st1 d (walk st1 d)")
  from assms c ae show ?thesis
    by (cases r2) (auto simp: serverlessZip_def Let_def split: if_splits)
qed

lemma serverlessZip_not_opened:
  assumes "\<not> can_open st a"
  shows "(\<exists>e. fst (serverlessZip this a d fl st) = Inl e)
       \<and> files (snd (serverlessZip this a d fl st)) = files st"
proof -
  from assms have c: "createWriteStream a st = (False, st)"
    by (simp add: createWriteStream_def)
  obtain r2 es where ae: "archive_entries st d (walk st d) = (r2, es)"
    by (cases "archive_entries st d (walk st d)")
  from c ae show ?thesis
    by (cases r2) (simp_all add: serverlessZip_def Let_def)
qed

lemma serverlessZip_error_leaves_file:
  assumes "can_open st a" and "fst (serverlessZip this a d fl st) = Inl e"
  shows "\<exists>es. map_of (files (snd (serverlessZip this a d fl st))) a = Some (Zip es False)"
proof -
  let ?st1 = "st\<lparr>files := write_file a (Zip [] False) (files st)\<rparr>"
  have c: "createWriteStream a st = (True, ?st1)"
    using assms(1) by (simp add: createWriteStream_def)
  obtain r2 es where ae: "archive_entries ?st1 d (walk ?st1 d) = (r2, es)"
    by (cases "archive_entries ?st1 d (walk ?st1 d)")
  with assms(2) c obtain e' where r2: "r2 = Inl e'"
    by (cases r2) (auto simp: serverlessZip_def Let_def)
  from c ae r2 have "map_of (files (snd (serverlessZip this a d fl st))) a = Some (Zip es False)"
    by (simp add: serverlessZip_def Let_def map_of_write_file)
  then show ?thesis by blast
qed

lemma serverlessZip_unreadable:
  assumes "r \<in> set (glob_sync st d)" and "path_join d r \<in> set (unreadable st)"
  shows "\<exists>x. fst (serverlessZip this a d fl st) = Inl (Uncaught x)"
proof -
  obtain opened st1 where c: "createWriteStream a st = (opened, st1)"
    by (cases "createWriteStream a st")
  then have st1: "st1 = st \<or> st1 = st\<lparr>files := write_file a (Zip [] False) (files st)\<rparr>"
    by (auto simp: createWriteStream_def split: if_splits)
  obtain r2 es where ae: "archive_entries st1 d (walk st1 d) = (r2, es)"
    by (cases "archive_entries st1 d (walk st1 d)")
  from assms(1) have r: "relative_path r" "path_join d r \<in> fst ` set (files st)"
    "\<not> is_directory st (path_join d r)"
    by (simp_all add: glob_sync_member)
  have "path_join d r \<in> fst ` set (files st1)"
  proof -
    from r(2) have "path_join d r \<in> set (map fst (files st))" by simp
    then have "path_join d r \<in> set (map fst (write_file a (Zip [] False) (files st)))"
      by (simp only: keys_write_file split: if_split) simp
    then have "path_join d r \<in> fst ` set (write_file a (Zip [] False) (files st))"
      by simp
    with r(2) st1 show ?thesis by (elim disjE) simp_all
  qed
  with r(1) have listed: "r \<in> set (walk st1 d)"
    by (simp add: walk_member)
  from r(3) st1 have regular: "\<not> is_directory st1 (path_join d r)"
    by (auto simp: is_directory_def map_of_write_file split: if_splits)
  from assms(2) st1 have locked: "path_join d r \<in> set (unreadable st1)"
    by auto
  have "\<exists>x. r2 = Inl x"
  proof (cases r2)
    case (Inl x)
    then show ?thesis by simp
  next
    case (Inr u)
    from archive_entries_ok [OF ae [unfolded Inr]] listed regular locked show ?thesis by blast
  qed
  then obtain x where "r2 = Inl x" ..
  with c ae have "fst (serverlessZip this a d fl st) = Inl (Uncaught x)"
    by (simp add: serverlessZip_def Let_def)
  then show ?thesis ..
qed

text \<open>Paths that are not under a directory do not show in a walk of it.\<close>

lemma lookup_append_outside:
  assumes "p \<notin> fst ` set new"
  shows "map_of (fs @ new) p = map_of fs p"
proof -
  from assms have "map_of new p = None" by (simp add: map_of_eq_None_iff)
  then show ?thesis by (simp add: map_add_def split: option.splits)
qed

lemma walk_in_under: "x \<in> set (walk st d) \<Longrightarrow> x \<in> set (under d (path_join d x))"
  by (auto simp: walk_under under_def)

lemma make_directories_files:
  "make_directories qs st = (r, st') \<Longrightarrow> \<exists>new. files st' = files st @ new \<and> fst ` set new \<subseteq> set qs"
proof (induction qs arbitrary: st)
  case Nil
  then have "files st' = files st @ [] \<and> fst ` set ([] :: (string \<times> content) list) \<subseteq> set []"
    by simp
  then show ?case by (rule exI)
next
  case (Cons q qs)
  show ?case
  proof (cases "map_of (files st) q")
    case None
    let ?st1 = "st\<lparr>files := files st @ [(q, Directory)]\<rparr>"
    from None Cons.prems have "make_directories qs ?st1 = (r, st')" by simp
    from Cons.IH [OF this] obtain new where
      n: "files st' = files ?st1 @ new" "fst ` set new \<subseteq> set qs"
      by blast
    from n(1) have "files st' = files st @ ((q, Directory) # new)" by simp
    moreover from n(2) have "fst ` set ((q, Directory) # new) \<subseteq> set (q # qs)" by auto
    ultimately show ?thesis by blast
  next
    case (Some c)
    show ?thesis
    proof (cases "c = Directory")
      case True
      with Some Cons.prems have "make_directories qs st = (r, st')" by simp
      from Cons.IH [OF this] obtain new where
        n: "files st' = files st @ new" "fst ` set new \<subseteq> set qs"
        by blast
      from n(2) have "fst ` set new \<subseteq> set (q # qs)" by auto
      with n(1) show ?thesis by blast
    next
      case False
      with Some Cons.prems have "st' = st" by simp
      then have "files st' = files st @ [] \<and> fst ` set ([] :: (string \<times> content) list) \<subseteq> set (q # qs)"
        by simp
      then show ?thesis by (rule exI)
    qed
  qed
qed

lemma writeFileDir_outside:
  assumes "writeFileDir a st = (r, st')"
    and "\<forall>q \<in> set (parent_directories (path_dirname a)). under d q = []"
  shows "walk st' d = walk st d"
    and "x \<in> set (walk st d) \<Longrightarrow> map_of (files st') (path_join d x) = map_of (files st) (path_join d x)"
proof -
  from assms(1) obtain new where
    new: "files st' = files st @ new" "fst ` set new \<subseteq> set (parent_directories (path_dirname a))"
    unfolding writeFileDir_def by (auto dest: make_directories_files)
  with assms(2) have out: "\<forall>q \<in> fst ` set new. under d q = []" by blast
  then have "concat (map (under d) (map fst new)) = []" by simp
  then show "walk st' d = walk st d"
    by (simp add: walk_under new(1))
  assume "x \<in> set (walk st d)"
  then have "under d (path_join d x) \<noteq> []"
    by (auto dest: walk_in_under)
  with out have "path_join d x \<notin> fst ` set new" by blast
  then have "map_of (files st @ new) (path_join d x) = map_of (files st) (path_join d x)"
    by (rule lookup_append_outside)
  then show "map_of (files st') (path_join d x) = map_of (files st) (path_join d x)"
    by (simp only: new(1))
qed

lemma write_file_outside:
  assumes "under d a = []"
  shows "walk (st\<lparr>files := write_file a c (files st)\<rparr>) d = walk st d"
    and "x \<in> set (walk st d) \<Longrightarrow>
         map_of (files (st\<lparr>files := write_file a c (files st)\<rparr>)) (path_join d x)
           = map_of (files st) (path_join d x)"
proof -
  show "walk (st\<lparr>files := write_file a c (files st)\<rparr>) d = walk st d"
    by (simp add: walk_under keys_write_file assms)
  assume "x \<in> set (walk st d)"
  then have "under d (path_join d x) \<noteq> []"
    by (auto dest: walk_in_under)
  with assms have "path_join d x \<noteq> a" by auto
  then show "map_of (files (st\<lparr>files := write_file a c (files st)\<rparr>)) (path_join d x)
           = map_of (files st) (path_join d x)"
    by (simp add: map_of_write_file)
qed

lemma zip_directory_ok:
  assumes "zip_directory this d z st = (Inr p, st')"
  obtains kept st2 where "fst (list_files this d st) = Inr kept" "kept \<noteq> []"
    "kept = glob_sync (snd (list_files this d st)) d"
    "writeFileDir (path_join (webpackOutputPath this) z) (snd (list_files this d st)) = (Inr (), st2)"
    "serverlessZip this (path_join (webpackOutputPath this) z) d kept st2 = (Inr p, st')"
proof -
  obtain r st1 where l: "list_files this d st = (r, st1)"
    by (cases "list_files this d st")
  from list_files_glob [OF l] have r: "r = Inr (glob_sync st1 d)" .
  from assms l r have ne: "glob_sync st1 d \<noteq> []"
    by (auto simp: zip_directory_def split: if_splits)
  obtain r2 st2 where w: "writeFileDir (path_join (webpackOutputPath this) z) st1 = (r2, st2)"
    by (cases "writeFileDir (path_join (webpackOutputPath this) z) st1")
  from assms l r ne w have r2: "r2 = Inr ()"
    by (cases r2) (auto simp: zip_directory_def Let_def)
  from assms l r ne w r2 have
    "serverlessZip this (path_join (webpackOutputPath this) z) d (glob_sync st1 d) st2 = (Inr p, st')"
    by (simp add: zip_directory_def Let_def)
  with l r ne w r2 that show thesis by simp
qed

lemma run_zip_map_excluding:
  "zip_directory map_excluding_plugin ''.webpack/service'' ''svc.zip'' service_dir_state
     = (Inr ''.webpack/svc.zip'',
        snd (zip_directory map_excluding_plugin ''.webpack/service'' ''svc.zip'' service_dir_state))"
proof -
  have "fst (zip_directory map_excluding_plugin ''.webpack/service'' ''svc.zip'' service_dir_state)
          = Inr ''.webpack/svc.zip''"
    by code_simp
  then show ?thesis by (simp add: prod_eq_iff)
qed

section \<open>Exclusion is idempotent\<close>

text \<open>
  Claim C8. Listing the files of a directory a second time, after the first listing
  excluded and deleted what matches the pattern, returns the same list as the first
  and leaves the disk as the first left it; neither listing can fail. The loop run
  again over the list as it was first enumerated, whose matching files are deleted by
  now, ends without an error as well, with the same list, and changes nothing.
\<close>

theorem exclusion_idempotent:
  "(\<exists>kept. fst (list_files this d st) = Inr kept
        \<and> fst (list_files this d (snd (list_files this d st))) = Inr kept)
   \<and> files (snd (list_files this d (snd (list_files this d st)))) = files (snd (list_files this d st))
   \<and> (excludeRegex this = Some m \<longrightarrow>
        exclude_loop m d (glob_sync st d) 0 0 (snd (list_files this d st))
          = (Inr (filter (\<lambda>f. \<not> m f) (glob_sync st d), length (filter m (glob_sync st d))),
             snd (list_files this d st)))"
proof -
  have "\<exists>kept. fst (list_files this d st) = Inr kept"
    using list_files_glob [OF surjective_pairing, of this d st] by blast
  then show ?thesis
    using list_files_twice [of this d st] second_pass_no_error [of this m d st] by auto
qed

theorem exclusion_idempotent_witness:
  "fst (list_files map_excluding_plugin ''.webpack/service''
          (snd (list_files map_excluding_plugin ''.webpack/service'' service_dir_state)))
     = Inr [''index.js'', ''lib/util.js'']
   \<and> fst (exclude_loop (suffix ''.map'') ''.webpack/service'' [''index.js'', ''index.js.map'', ''lib/util.js''] 0 0
          (snd (list_files map_excluding_plugin ''.webpack/service'' service_dir_state)))
     = Inr ([''index.js'', ''lib/util.js''], 1)"
proof -
  note t = exclusion_idempotent [of map_excluding_plugin "''.webpack/service''" service_dir_state
      "suffix ''.map''"]
  have regex: "excludeRegex map_excluding_plugin = Some (suffix ''.map'')"
    by (simp add: map_excluding_plugin_def)
  have kept: "fst (list_files map_excluding_plugin ''.webpack/service'' service_dir_state)
     = Inr [''index.js'', ''lib/util.js'']"
    by code_simp
  have listing: "glob_sync service_dir_state ''.webpack/service'' = [''index.js'', ''index.js.map'', ''lib/util.js'']"
    by code_simp
  have kf: "filter (\<lambda>f. \<not> suffix ''.map'' f) [''index.js'', ''index.js.map'', ''lib/util.js'']
      = [''index.js'', ''lib/util.js'']"
    "length (filter (suffix ''.map'') [''index.js'', ''index.js.map'', ''lib/util.js'']) = 1"
    by code_simp+
  from t kept have a: "fst (list_files map_excluding_plugin ''.webpack/service''
          (snd (list_files map_excluding_plugin ''.webpack/service'' service_dir_state)))
     = Inr [''index.js'', ''lib/util.js'']"
    by auto
  from t regex have "exclude_loop (suffix ''.map'') ''.webpack/service''
       (glob_sync service_dir_state ''.webpack/service'') 0 0
       (snd (list_files map_excluding_plugin ''.webpack/service'' service_dir_state))
     = (Inr (filter (\<lambda>f. \<not> suffix ''.map'' f) (glob_sync service_dir_state ''.webpack/service''),
             length (filter (suffix ''.map'') (glob_sync service_dir_state ''.webpack/service''))),
        snd (list_files map_excluding_plugin ''.webpack/service'' service_dir_state))"
    by blast
  then have b: "fst (exclude_loop (suffix ''.map'') ''.webpack/service''
       [''index.js'', ''index.js.map'', ''lib/util.js''] 0 0
       (snd (list_files map_excluding_plugin ''.webpack/service'' service_dir_state)))
     = Inr ([''index.js'', ''lib/util.js''], 1)"
    unfolding listing kf by simp
  from a b show ?thesis by simp
qed

section \<open>The empty file list\<close>

text \<open>
  Claim C4, as the code has it. When the list of files after exclusion is empty,
  \<^verbatim>\<open>zip\<close> throws the error \<^verbatim>\<open>Packaging: No files found\<close>, a fixed text that does not
  name the directory, and creates nothing: every file on disk afterwards was there
  before, with the content it had. The list is empty when every enumerated file
  matches the pattern, and when there is no pattern and no file.
\<close>

theorem empty_file_list_rejected:
  "(fst (list_files this d st) = Inr [] \<longrightarrow>
      fst (zip_directory this d z st) = Inl (ServerlessError ''Packaging: No files found'')
    \<and> (\<forall>p c. map_of (files (snd (zip_directory this d z st))) p = Some c \<longrightarrow>
               map_of (files st) p = Some c))
   \<and> (excludeRegex this = Some m \<and> (\<forall>f \<in> set (glob_sync st d). m f) \<longrightarrow>
        fst (list_files this d st) = Inr [])
   \<and> (excludeRegex this = None \<and> glob_sync st d = [] \<longrightarrow> fst (list_files this d st) = Inr [])"
proof (intro conjI impI allI)
  assume e: "fst (list_files this d st) = Inr []"
  then have z: "zip_directory this d z st
      = (Inl (ServerlessError ''Packaging: No files found''), snd (list_files this d st))"
    by (cases "list_files this d st") (simp add: zip_directory_def)
  show "fst (zip_directory this d z st) = Inl (ServerlessError ''Packaging: No files found'')"
    by (simp add: z)
  fix p c
  assume "map_of (files (snd (zip_directory this d z st))) p = Some c"
  then have "map_of (files (snd (list_files this d st))) p = Some c"
    by (simp add: z)
  then show "map_of (files st) p = Some c"
    by (rule list_files_only_deletes)
next
  assume "excludeRegex this = Some m \<and> (\<forall>f \<in> set (glob_sync st d). m f)"
  then show "fst (list_files this d st) = Inr []"
    by (simp add: list_files_Some filter_empty_conv)
next
  assume "excludeRegex this = None \<and> glob_sync st d = []"
  then show "fst (list_files this d st) = Inr []"
    by (simp add: list_files_None)
qed

theorem empty_file_list_rejected_witness:
  "fst (zip_directory all_excluding_plugin ''.webpack/service'' ''svc.zip'' service_dir_state)
     = Inl (ServerlessError ''Packaging: No files found'')
   \<and> map_of (files (snd (zip_directory all_excluding_plugin ''.webpack/service'' ''svc.zip''
                            service_dir_state))) ''.webpack/svc.zip'' = None"
proof -
  note t = empty_file_list_rejected [of all_excluding_plugin "''.webpack/service''" service_dir_state
      "''svc.zip''" "\<lambda>file. True"]
  have regex: "excludeRegex all_excluding_plugin = Some (\<lambda>file. True)"
    by (simp add: all_excluding_plugin_def)
  from t regex have empty: "fst (list_files all_excluding_plugin ''.webpack/service'' service_dir_state) = Inr []"
    by blast
  from t empty have err: "fst (zip_directory all_excluding_plugin ''.webpack/service'' ''svc.zip''
      service_dir_state) = Inl (ServerlessError ''Packaging: No files found'')"
    and only: "\<forall>p c. map_of (files (snd (zip_directory all_excluding_plugin ''.webpack/service''
        ''svc.zip'' service_dir_state))) p = Some c \<longrightarrow> map_of (files service_dir_state) p = Some c"
    by blast+
  have "map_of (files service_dir_state) ''.webpack/svc.zip'' = None"
    by code_simp
  with only have "map_of (files (snd (zip_directory all_excluding_plugin ''.webpack/service''
        ''svc.zip'' service_dir_state))) ''.webpack/svc.zip'' = None"
    by (metis option.exhaust option.distinct(1))
  with err show ?thesis by simp
qed

text \<open>
  For the directory \<^verbatim>\<open>.webpack/service\<close> with every file excluded, the message of the
  error does not contain the name of the directory.
\<close>

theorem error_does_not_name_directory:
  "fst (zip_directory all_excluding_plugin ''.webpack/service'' ''svc.zip'' service_dir_state)
     = Inl (ServerlessError ''Packaging: No files found'')
   \<and> \<not> sublist ''.webpack/service'' ''Packaging: No files found''"
proof -
  have "fst (zip_directory all_excluding_plugin ''.webpack/service'' ''svc.zip'' service_dir_state)
     = Inl (ServerlessError ''Packaging: No files found'')"
    by code_simp
  moreover have "\<not> sublist ''.webpack/service'' ''Packaging: No files found''"
    by code_simp
  ultimately show ?thesis by simp
qed

section \<open>What the archive holds\<close>

text \<open>
  Claim C2, as the code has it. The archiver is not given the list of files: it walks
  the directory as it is on disk, and it stores the directories it meets as well as
  the files. When \<^verbatim>\<open>zip\<close> returns, and neither the output path nor a directory created
  for it lies under the archived directory, the file at the returned path is a
  finalized archive that holds, in the order of the walk, one entry for every
  directory under the archived one and one for every file that the pattern does not
  match, and nothing else. Its file entries are exactly the files of the filtered
  list, each with the content the file had when \<^verbatim>\<open>zip\<close> was called, and none of
  them matches the pattern. The excluded files are absent because they were deleted
  before the walk.
\<close>

theorem archive_holds_filtered_files:
  assumes "zip_directory this d z st = (Inr p, st')"
    and "\<forall>q \<in> set (path_join (webpackOutputPath this) z
                    # parent_directories (path_dirname (path_join (webpackOutputPath this) z))).
           under d q = []"
  shows "p = path_join (webpackOutputPath this) z
       \<and> (\<exists>es. map_of (files st') p = Some (Zip es True)
            \<and> map (entry_at st d)
                  (filter (\<lambda>r. is_directory st (path_join d r) \<or> \<not> excluded this r) (walk st d))
                = map Some es
            \<and> (\<exists>kept. fst (list_files this d st) = Inr kept
                   \<and> set kept = set (map fst (filter (\<lambda>(r, c). c \<noteq> Directory) es)))
            \<and> (\<forall>(r, c) \<in> set es. c \<noteq> Directory \<longrightarrow>
                  map_of (files st) (path_join d r) = Some c \<and> \<not> excluded this r))"
proof -
  let ?a = "path_join (webpackOutputPath this) z"
  let ?st1 = "snd (list_files this d st)"
  from assms(1) obtain kept st2 where
    k: "fst (list_files this d st) = Inr kept" "kept = glob_sync ?st1 d" and
    w: "writeFileDir ?a ?st1 = (Inr (), st2)" and
    sz: "serverlessZip this ?a d kept st2 = (Inr p, st')"
    by (rule zip_directory_ok)
  let ?st3 = "st2\<lparr>files := write_file ?a (Zip [] False) (files st2)\<rparr>"
  from sz obtain es where p: "p = ?a" and
    ae: "archive_entries ?st3 d (walk ?st3 d) = (Inr (), es)" and
    f: "files st' = write_file ?a (Zip es True) (write_file ?a (Zip [] False) (files st2))"
    by (rule serverlessZip_ok)
  from assms(2) have oa: "under d ?a = []"
    and op: "\<forall>q \<in> set (parent_directories (path_dirname ?a)). under d q = []"
    by simp_all
  note wd = writeFileDir_outside [OF w op]
  note wf = write_file_outside [OF oa, where st = st2 and c = "Zip [] False"]
  have walk3: "walk ?st3 d = walk ?st1 d"
    by (simp only: wd(1) wf(1))
  have look: "map_of (files ?st3) (path_join d x) = map_of (files st) (path_join d x)"
    if x: "x \<in> set (walk ?st1 d)" for x
  proof -
    from x have x2: "x \<in> set (walk st2 d)" by (simp only: wd(1))
    from wf(2) [OF x2] wd(2) [OF x] list_files_lookup [OF x] show ?thesis by simp
  qed
  from archive_entries_ok [OF ae] have "map (entry_at ?st3 d) (walk ?st1 d) = map Some es"
    by (simp only: walk3)
  moreover have "map (entry_at ?st3 d) (walk ?st1 d) = map (entry_at st d) (walk ?st1 d)"
    by (rule map_cong [OF refl]) (rule entry_at_cong, rule look)
  ultimately have stored: "map (entry_at st d) (walk ?st1 d) = map Some es"
    by simp
  then have exact: "map (entry_at st d)
      (filter (\<lambda>r. is_directory st (path_join d r) \<or> \<not> excluded this r) (walk st d)) = map Some es"
    by (simp only: list_files_walk)
  have archive: "map_of (files st') p = Some (Zip es True)"
    by (simp add: f p map_of_write_file)
  have "map (entry_at ?st1 d) (walk ?st1 d) = map (entry_at st d) (walk ?st1 d)"
    by (rule map_cong [OF refl]) (rule entry_at_cong, rule list_files_lookup)
  with stored have "map (entry_at ?st1 d) (walk ?st1 d) = map Some es"
    by simp
  from file_entries [OF this] have names: "map fst (filter (\<lambda>(r, c). c \<noteq> Directory) es) = kept"
    by (simp add: k(2) glob_sync_def)
  have each: "\<forall>(r, c) \<in> set es. c \<noteq> Directory \<longrightarrow>
      map_of (files st) (path_join d r) = Some c \<and> \<not> excluded this r"
  proof (intro ballI, clarify)
    fix r c assume rc: "(r, c) \<in> set es" "c \<noteq> Directory"
    from file_entry_content [OF exact rc] have content: "map_of (files st) (path_join d r) = Some c"
      by simp
    from rc have "r \<in> set (map fst (filter (\<lambda>(r, c). c \<noteq> Directory) es))"
      by force
    with names have rk: "r \<in> set kept" by simp
    have "\<not> excluded this r"
    proof (cases "excludeRegex this")
      case None
      then show ?thesis by (simp add: excluded_def)
    next
      case (Some m)
      with k(1) have "kept = filter (\<lambda>f. \<not> m f) (glob_sync st d)"
        by (simp add: list_files_Some)
      with rk Some show ?thesis by (simp add: excluded_def)
    qed
    with content show "map_of (files st) (path_join d r) = Some c \<and> \<not> excluded this r" ..
  qed
  from k(1) names have listed: "\<exists>kept. fst (list_files this d st) = Inr kept
      \<and> set kept = set (map fst (filter (\<lambda>(r, c). c \<noteq> Directory) es))"
    by simp
  from p archive exact listed each show ?thesis by blast
qed

theorem archive_holds_filtered_files_witness:
  "map_of (files (snd (zip_directory map_excluding_plugin ''.webpack/service'' ''svc.zip''
                         service_dir_state))) ''.webpack/svc.zip''
     = Some (Zip [(''index.js'', Data ''exports.main = 1''), (''lib/'', Directory),
                  (''lib/util.js'', Data ''exports.id = 2'')] True)
   \<and> (\<exists>kept. fst (list_files map_excluding_plugin ''.webpack/service'' service_dir_state) = Inr kept
          \<and> set kept = {''index.js'', ''lib/util.js''})"
proof -
  have outside: "\<forall>q \<in> set (path_join (webpackOutputPath map_excluding_plugin) ''svc.zip''
        # parent_directories (path_dirname (path_join (webpackOutputPath map_excluding_plugin) ''svc.zip''))).
      under ''.webpack/service'' q = []"
    by code_simp
  from archive_holds_filtered_files [OF run_zip_map_excluding outside]
  obtain es where
    a: "map_of (files (snd (zip_directory map_excluding_plugin ''.webpack/service'' ''svc.zip''
                            service_dir_state))) ''.webpack/svc.zip'' = Some (Zip es True)"
    and x: "map (entry_at service_dir_state ''.webpack/service'')
              (filter (\<lambda>r. is_directory service_dir_state (path_join ''.webpack/service'' r)
                          \<or> \<not> excluded map_excluding_plugin r)
                      (walk service_dir_state ''.webpack/service'')) = map Some es"
    and l: "\<exists>kept. fst (list_files map_excluding_plugin ''.webpack/service'' service_dir_state) = Inr kept
              \<and> set kept = set (map fst (filter (\<lambda>(r, c). c \<noteq> Directory) es))"
    by blast
  have "map (entry_at service_dir_state ''.webpack/service'')
              (filter (\<lambda>r. is_directory service_dir_state (path_join ''.webpack/service'' r)
                          \<or> \<not> excluded map_excluding_plugin r)
                      (walk service_dir_state ''.webpack/service''))
          = [Some (''index.js'', Data ''exports.main = 1''), Some (''lib/'', Directory),
             Some (''lib/util.js'', Data ''exports.id = 2'')]"
    by code_simp
  with x have es: "es = [(''index.js'', Data ''exports.main = 1''), (''lib/'', Directory),
                         (''lib/util.js'', Data ''exports.id = 2'')]"
    by auto
  from l obtain kept where
    k: "fst (list_files map_excluding_plugin ''.webpack/service'' service_dir_state) = Inr kept"
    "set kept = set (map fst (filter (\<lambda>(r, c). c \<noteq> Directory) es))"
    by blast
  from k(2) have "set kept = {''index.js'', ''lib/util.js''}"
    unfolding es by simp
  with k(1) have listed: "\<exists>kept. fst (list_files map_excluding_plugin ''.webpack/service''
      service_dir_state) = Inr kept \<and> set kept = {''index.js'', ''lib/util.js''}"
    by blast
  from a have archive: "map_of (files (snd (zip_directory map_excluding_plugin ''.webpack/service''
      ''svc.zip'' service_dir_state))) ''.webpack/svc.zip''
     = Some (Zip [(''index.js'', Data ''exports.main = 1''), (''lib/'', Directory),
                  (''lib/util.js'', Data ''exports.id = 2'')] True)"
    unfolding es .
  from archive listed show ?thesis by (rule conjI)
qed

text \<open>
  The build output of a service with a source map and a nested file, source maps
  excluded: the filtered list has two files, the archive has three entries, one of
  them the directory \<^verbatim>\<open>lib/\<close>, which is not in the list.
\<close>

theorem directory_entry_in_archive:
  "fst (list_files map_excluding_plugin ''.webpack/service'' service_dir_state)
     = Inr [''index.js'', ''lib/util.js'']
   \<and> fst (zip_directory map_excluding_plugin ''.webpack/service'' ''svc.zip'' service_dir_state)
     = Inr ''.webpack/svc.zip''
   \<and> map_of (files (snd (zip_directory map_excluding_plugin ''.webpack/service'' ''svc.zip''
                            service_dir_state))) ''.webpack/svc.zip''
     = Some (Zip [(''index.js'', Data ''exports.main = 1''), (''lib/'', Directory),
                  (''lib/util.js'', Data ''exports.id = 2'')] True)
   \<and> ''lib/'' \<notin> set [''index.js'', ''lib/util.js'']"
proof -
  have "fst (list_files map_excluding_plugin ''.webpack/service'' service_dir_state)
     = Inr [''index.js'', ''lib/util.js'']"
    by code_simp
  moreover have "fst (zip_directory map_excluding_plugin ''.webpack/service'' ''svc.zip'' service_dir_state)
     = Inr ''.webpack/svc.zip''"
    by code_simp
  moreover have "map_of (files (snd (zip_directory map_excluding_plugin ''.webpack/service'' ''svc.zip''
                            service_dir_state))) ''.webpack/svc.zip''
     = Some (Zip [(''index.js'', Data ''exports.main = 1''), (''lib/'', Directory),
                  (''lib/util.js'', Data ''exports.id = 2'')] True)"
    by code_simp
  ultimately show ?thesis by simp
qed

text \<open>
  Why the output path must not lie under the archived directory: here the archive of
  an earlier build is excluded and deleted, the output stream creates it anew in the
  directory, and the walk meets it.
\<close>

lemma output_inside_directory:
  "fst (list_files zip_excluding_plugin ''.webpack/service'' stale_archive_state) = Inr [''index.js'']
   \<and> fst (zip_directory zip_excluding_plugin ''.webpack/service'' ''svc.zip'' stale_archive_state)
       = Inr ''.webpack/service/svc.zip''
   \<and> map_option entry_names
        (map_of (files (snd (zip_directory zip_excluding_plugin ''.webpack/service'' ''svc.zip''
                               stale_archive_state))) ''.webpack/service/svc.zip'')
       = Some [''index.js'', ''svc.zip'']"
proof -
  have "fst (list_files zip_excluding_plugin ''.webpack/service'' stale_archive_state) = Inr [''index.js'']"
    by code_simp
  moreover have "fst (zip_directory zip_excluding_plugin ''.webpack/service'' ''svc.zip'' stale_archive_state)
       = Inr ''.webpack/service/svc.zip''"
    by code_simp
  moreover have "map_option entry_names
        (map_of (files (snd (zip_directory zip_excluding_plugin ''.webpack/service'' ''svc.zip''
                               stale_archive_state))) ''.webpack/service/svc.zip'')
       = Some [''index.js'', ''svc.zip'']"
    by code_simp
  ultimately show ?thesis by simp
qed

section \<open>A build that fails\<close>

text \<open>
  Claim C9, as the code has it. \<^verbatim>\<open>serverlessZip\<close> returns the output path only when
  the output could be opened, every path of the walk of the directory was stored, and
  the archive finalized. A failure never reaches the caller as an error: it is either an
  exception thrown inside the error handler of the archive, which nothing catches, or
  a promise that never settles. When the output cannot be opened, no path is returned
  and the disk is unchanged. When a file under the directory cannot be read, the
  outcome is the uncaught exception. Whenever the operation fails after the output was
  opened, the output file is still there afterwards, holding an archive that was not
  finalized: nothing removes it.
\<close>

theorem failed_build_leaves_partial_archive:
  "(serverlessZip this a d fl st = (Inr p, st') \<longrightarrow>
      p = a \<and> can_open st a
      \<and> (\<exists>es. map (entry_at (st\<lparr>files := write_file a (Zip [] False) (files st)\<rparr>) d)
                   (walk (st\<lparr>files := write_file a (Zip [] False) (files st)\<rparr>) d) = map Some es
             \<and> map_of (files st') a = Some (Zip es True)))
   \<and> (fst (serverlessZip this a d fl st) = Inl e \<longrightarrow> e = NeverSettles \<or> (\<exists>x. e = Uncaught x))
   \<and> (\<not> can_open st a \<longrightarrow>
        (\<exists>e. fst (serverlessZip this a d fl st) = Inl e)
        \<and> files (snd (serverlessZip this a d fl st)) = files st)
   \<and> (r \<in> set (glob_sync st d) \<and> path_join d r \<in> set (unreadable st) \<longrightarrow>
        (\<exists>x. fst (serverlessZip this a d fl st) = Inl (Uncaught x)))
   \<and> (can_open st a \<and> fst (serverlessZip this a d fl st) = Inl e \<longrightarrow>
        (\<exists>es. map_of (files (snd (serverlessZip this a d fl st))) a = Some (Zip es False)))"
proof (intro conjI impI)
  assume ok: "serverlessZip this a d fl st = (Inr p, st')"
  let ?st1 = "st\<lparr>files := write_file a (Zip [] False) (files st)\<rparr>"
  from ok obtain es where es: "p = a" "can_open st a"
    "archive_entries ?st1 d (walk ?st1 d) = (Inr (), es)"
    "files st' = write_file a (Zip es True) (write_file a (Zip [] False) (files st))"
    by (rule serverlessZip_ok)
  from es(1,2) show "p = a" "can_open st a" .
  from archive_entries_ok [OF es(3)] have "map (entry_at ?st1 d) (walk ?st1 d) = map Some es" ..
  moreover from es(4) have "map_of (files st') a = Some (Zip es True)"
    by (simp add: map_of_write_file)
  ultimately show "\<exists>es. map (entry_at ?st1 d) (walk ?st1 d) = map Some es
      \<and> map_of (files st') a = Some (Zip es True)"
    by blast
next
  assume "fst (serverlessZip this a d fl st) = Inl e"
  then show "e = NeverSettles \<or> (\<exists>x. e = Uncaught x)"
    by (rule serverlessZip_failure)
next
  assume closed: "\<not> can_open st a"
  from serverlessZip_not_opened [OF closed]
  show "\<exists>e. fst (serverlessZip this a d fl st) = Inl e"
    "files (snd (serverlessZip this a d fl st)) = files st"
    by blast+
next
  assume "r \<in> set (glob_sync st d) \<and> path_join d r \<in> set (unreadable st)"
  then show "\<exists>x. fst (serverlessZip this a d fl st) = Inl (Uncaught x)"
    by (blast intro: serverlessZip_unreadable)
next
  assume "can_open st a \<and> fst (serverlessZip this a d fl st) = Inl e"
  then show "\<exists>es. map_of (files (snd (serverlessZip this a d fl st))) a = Some (Zip es False)"
    by (blast intro: serverlessZip_error_leaves_file)
qed

theorem failed_build_leaves_partial_archive_witness:
  "map_of (files (snd (serverlessZip legacy_plugin ''.webpack/svc.zip'' ''.webpack/service''
              [''index.js'', ''index.js.map'', ''lib/util.js''] service_dir_state))) ''.webpack/svc.zip''
     = Some (Zip [(''index.js'', Data ''exports.main = 1''), (''index.js.map'', Data ''{}''),
                  (''lib/'', Directory), (''lib/util.js'', Data ''exports.id = 2'')] True)
   \<and> (\<exists>x. fst (serverlessZip legacy_plugin ''.webpack/svc.zip'' ''.webpack/service''
              [''index.js'', ''index.js.map'', ''lib/util.js''] unreadable_state) = Inl (Uncaught x))
   \<and> (\<exists>es. map_of (files (snd (serverlessZip legacy_plugin ''.webpack/svc.zip'' ''.webpack/service''
              [''index.js'', ''index.js.map'', ''lib/util.js''] unreadable_state))) ''.webpack/svc.zip''
            = Some (Zip es False))
   \<and> (\<exists>e. fst (serverlessZip legacy_plugin ''.webpack/svc.zip'' ''.webpack/service''
              [''index.js'', ''index.js.map'', ''lib/util.js''] unwritable_state) = Inl e)
   \<and> files (snd (serverlessZip legacy_plugin ''.webpack/svc.zip'' ''.webpack/service''
              [''index.js'', ''index.js.map'', ''lib/util.js''] unwritable_state)) = files unwritable_state"
proof -
  note good = failed_build_leaves_partial_archive [of legacy_plugin "''.webpack/svc.zip''"
      "''.webpack/service''" "[''index.js'', ''index.js.map'', ''lib/util.js'']" service_dir_state
      "''.webpack/svc.zip''"
      "snd (serverlessZip legacy_plugin ''.webpack/svc.zip'' ''.webpack/service''
              [''index.js'', ''index.js.map'', ''lib/util.js''] service_dir_state)"
      "Uncaught (EACCES ''.webpack/service/lib/util.js'')" "''lib/util.js''"]
  note bad = failed_build_leaves_partial_archive [of legacy_plugin "''.webpack/svc.zip''"
      "''.webpack/service''" "[''index.js'', ''index.js.map'', ''lib/util.js'']" unreadable_state
      "''.webpack/svc.zip''"
      "snd (serverlessZip legacy_plugin ''.webpack/svc.zip'' ''.webpack/service''
              [''index.js'', ''index.js.map'', ''lib/util.js''] unreadable_state)"
      "Uncaught (EACCES ''.webpack/service/lib/util.js'')" "''lib/util.js''"]
  note shut = failed_build_leaves_partial_archive [of legacy_plugin "''.webpack/svc.zip''"
      "''.webpack/service''" "[''index.js'', ''index.js.map'', ''lib/util.js'']" unwritable_state
      "''.webpack/svc.zip''"
      "snd (serverlessZip legacy_plugin ''.webpack/svc.zip'' ''.webpack/service''
              [''index.js'', ''index.js.map'', ''lib/util.js''] unwritable_state)"
      "Uncaught (EACCES ''.webpack/service/lib/util.js'')" "''lib/util.js''"]
  have "fst (serverlessZip legacy_plugin ''.webpack/svc.zip'' ''.webpack/service''
              [''index.js'', ''index.js.map'', ''lib/util.js''] service_dir_state) = Inr ''.webpack/svc.zip''"
    by code_simp
  then have run: "serverlessZip legacy_plugin ''.webpack/svc.zip'' ''.webpack/service''
              [''index.js'', ''index.js.map'', ''lib/util.js''] service_dir_state
      = (Inr ''.webpack/svc.zip'', snd (serverlessZip legacy_plugin ''.webpack/svc.zip'' ''.webpack/service''
              [''index.js'', ''index.js.map'', ''lib/util.js''] service_dir_state))"
    by (simp add: prod_eq_iff)
  from good run obtain es where
    stored: "map (entry_at (service_dir_state\<lparr>files := write_file ''.webpack/svc.zip'' (Zip [] False)
                                                        (files service_dir_state)\<rparr>) ''.webpack/service'')
               (walk (service_dir_state\<lparr>files := write_file ''.webpack/svc.zip'' (Zip [] False)
                                                        (files service_dir_state)\<rparr>) ''.webpack/service'')
             = map Some es"
    and archive: "map_of (files (snd (serverlessZip legacy_plugin ''.webpack/svc.zip''
      ''.webpack/service'' [''index.js'', ''index.js.map'', ''lib/util.js''] service_dir_state)))
      ''.webpack/svc.zip'' = Some (Zip es True)"
    by blast
  have "map (entry_at (service_dir_state\<lparr>files := write_file ''.webpack/svc.zip'' (Zip [] False)
                                                        (files service_dir_state)\<rparr>) ''.webpack/service'')
               (walk (service_dir_state\<lparr>files := write_file ''.webpack/svc.zip'' (Zip [] False)
                                                        (files service_dir_state)\<rparr>) ''.webpack/service'')
          = [Some (''index.js'', Data ''exports.main = 1''), Some (''index.js.map'', Data ''{}''),
             Some (''lib/'', Directory), Some (''lib/util.js'', Data ''exports.id = 2'')]"
    by code_simp
  with stored have "es = [(''index.js'', Data ''exports.main = 1''), (''index.js.map'', Data ''{}''),
                  (''lib/'', Directory), (''lib/util.js'', Data ''exports.id = 2'')]"
    by auto
  with archive have a: "map_of (files (snd (serverlessZip legacy_plugin ''.webpack/svc.zip''
      ''.webpack/service'' [''index.js'', ''index.js.map'', ''lib/util.js''] service_dir_state)))
      ''.webpack/svc.zip''
     = Some (Zip [(''index.js'', Data ''exports.main = 1''), (''index.js.map'', Data ''{}''),
                  (''lib/'', Directory), (''lib/util.js'', Data ''exports.id = 2'')] True)"
    by simp
  have listed: "''lib/util.js'' \<in> set (glob_sync unreadable_state ''.webpack/service'')"
    by code_simp
  have locked: "path_join ''.webpack/service'' ''lib/util.js'' \<in> set (unreadable unreadable_state)"
    by code_simp
  have writable: "can_open unreadable_state ''.webpack/svc.zip''"
    by code_simp
  from bad listed locked have b: "\<exists>x. fst (serverlessZip legacy_plugin ''.webpack/svc.zip''
      ''.webpack/service'' [''index.js'', ''index.js.map'', ''lib/util.js''] unreadable_state)
      = Inl (Uncaught x)"
    by blast
  have "fst (serverlessZip legacy_plugin ''.webpack/svc.zip''
      ''.webpack/service'' [''index.js'', ''index.js.map'', ''lib/util.js''] unreadable_state)
      = Inl (Uncaught (EACCES ''.webpack/service/lib/util.js''))"
    by code_simp
  with bad writable have c: "\<exists>es. map_of (files (snd (serverlessZip legacy_plugin ''.webpack/svc.zip''
      ''.webpack/service'' [''index.js'', ''index.js.map'', ''lib/util.js''] unreadable_state)))
      ''.webpack/svc.zip'' = Some (Zip es False)"
    by blast
  have "\<not> can_open unwritable_state ''.webpack/svc.zip''"
    by code_simp
  with shut have d: "\<exists>e. fst (serverlessZip legacy_plugin ''.webpack/svc.zip'' ''.webpack/service''
              [''index.js'', ''index.js.map'', ''lib/util.js''] unwritable_state) = Inl e"
    and e: "files (snd (serverlessZip legacy_plugin ''.webpack/svc.zip'' ''.webpack/service''
              [''index.js'', ''index.js.map'', ''lib/util.js''] unwritable_state)) = files unwritable_state"
    by blast+
  from a b c d e show ?thesis by blast
qed

text \<open>
  A build with one unreadable file: there was no file at the output path before, the
  build ends in the uncaught exception, an archive that is not finalized is at the
  output path afterwards, and \<^verbatim>\<open>copyArtifactByName\<close> copies it to the deploy stage
  without complaint.
\<close>

theorem partial_archive_left_behind:
  "map_of (files unreadable_state) ''.webpack/svc.zip'' = None
   \<and> fst (zip_directory legacy_plugin ''.webpack/service'' ''svc.zip'' unreadable_state)
       = Inl (Uncaught (EACCES ''.webpack/service/lib/util.js''))
   \<and> (\<exists>es. map_of (files (snd (zip_directory legacy_plugin ''.webpack/service'' ''svc.zip''
                                  unreadable_state))) ''.webpack/svc.zip''
              = Some (Zip es False))
   \<and> fst (copyArtifactByName legacy_plugin ''svc''
            (snd (zip_directory legacy_plugin ''.webpack/service'' ''svc.zip'' unreadable_state)))
       = Inr ()"
proof -
  have "map_of (files unreadable_state) ''.webpack/svc.zip'' = None"
    by code_simp
  moreover have "fst (zip_directory legacy_plugin ''.webpack/service'' ''svc.zip'' unreadable_state)
       = Inl (Uncaught (EACCES ''.webpack/service/lib/util.js''))"
    by code_simp
  moreover have "map_of (files (snd (zip_directory legacy_plugin ''.webpack/service'' ''svc.zip''
         unreadable_state))) ''.webpack/svc.zip''
       = Some (Zip [(''index.js'', Data ''exports.main = 1''), (''index.js.map'', Data ''{}''),
                    (''lib/'', Directory)] False)"
    by code_simp
  moreover have "fst (copyArtifactByName legacy_plugin ''svc''
            (snd (zip_directory legacy_plugin ''.webpack/service'' ''svc.zip'' unreadable_state)))
       = Inr ()"
    by code_simp
  ultimately show ?thesis by simp
qed

section \<open>The factory\<close>

lemma get_registered:
  "get this npm yarn ''npm'' out = (Inr (Some npm), out)"
  "get this npm yarn ''yarn'' out = (Inr (Some yarn), out)"
  by (simp_all add: get_def lodash_has_def castPath_def isKey_def reIsPlainProp_def word_char_def
      registeredPackagers_def)

lemma get_unknown:
  assumes "\<not> reIsDeepProp packagerId" and "packagerId \<noteq> ''npm''" and "packagerId \<noteq> ''yarn''"
  shows "fst (get this npm yarn packagerId out)
           = Inl (ServerlessError (''Could not find packager '' @ [CHR 0x27] @ packagerId @ [CHR 0x27]))"
  using assms
  by (simp add: get_def lodash_has_def castPath_def isKey_def registeredPackagers_def Let_def)

lemma stringToPath_member: "stringToPath ''npm.lockfileName'' = [''npm'', ''lockfileName'']"
  by code_simp

lemma deep_member: "reIsDeepProp ''npm.lockfileName''" "\<not> reIsPlainProp ''npm.lockfileName''"
  by code_simp+

text \<open>
  Claim C3 fails on the code for an identifier that is a path into a registered
  packager. \<^verbatim>\<open>_.has\<close> follows the path \<^verbatim>\<open>npm.lockfileName\<close> to a static member of
  the npm packager and answers yes, so nothing is thrown; the registry has no
  property of that name, and the factory returns \<^verbatim>\<open>undefined\<close>.
\<close>

theorem get_member_path:
  assumes "map_of (own_properties npm) ''lockfileName'' \<noteq> None"
  shows "get this npm yarn ''npm.lockfileName'' out = (Inr None, out)"
proof -
  have "castPath ''npm.lockfileName'' (JSValue (registeredPackagers npm yarn)) = [''npm'', ''lockfileName'']"
    using deep_member by (simp add: castPath_def isKey_def registeredPackagers_def stringToPath_member)
  with assms have "lodash_has (JSValue (registeredPackagers npm yarn)) ''npm.lockfileName''"
    by (auto simp: lodash_has_def registeredPackagers_def)
  then show ?thesis
    by (simp add: get_def registeredPackagers_def)
qed

theorem get_member_path_witness:
  "get modern_plugin npm_packager yarn_packager ''npm.lockfileName'' [] = (Inr None, [])"
proof -
  have "map_of (own_properties npm_packager) ''lockfileName'' \<noteq> None"
    by (simp add: npm_packager_def packager_members_def)
  then show ?thesis by (rule get_member_path)
qed

end
